theory Spec2Isabelle
  imports Main "HOL-Library.Word" "HOL-Library.AList"
begin

section \<open>Quantile aggregate: accounting of t-digests (universe/quantile)\<close>

text \<open>
  A t-digest is opaque to the aggregate: it is created, reset, handed out and taken back.
  The model keeps the number of samples it holds, which \<open>Reset\<close> sets back to zero.
\<close>

datatype TDigest = TDigest (samples: nat)

definition NewWithCompression :: "'c \<Rightarrow> TDigest" where
  "NewWithCompression cmpr = TDigest 0"

definition Reset :: "TDigest \<Rightarrow> TDigest" where
  "Reset d = TDigest 0"

text \<open>
  \<open>QuantileAgg\<close>: the free list is a Go slice, so it has a length and a capacity;
  \<open>accounted\<close> is the trace of the arguments of \<open>mem.Account\<close>, oldest first.
\<close>

record 'c QuantileAgg =
  Quantile :: 'c
  Compression :: 'c
  freeDigests :: "TDigest list"
  freeCap :: nat
  accounted :: "int list"

text \<open>\<open>QuantileAggState\<close>: \<open>digest\<close> is a pointer, \<open>None\<close> is nil.\<close>

record QuantileAggState =
  digest :: "TDigest option"
  ok :: bool

definition NewQuantileAgg :: "'c \<Rightarrow> 'c \<Rightarrow> nat \<Rightarrow> 'c QuantileAgg" where
  "NewQuantileAgg q cmpr sz =
     \<lparr>Quantile = q, Compression = cmpr, freeDigests = [], freeCap = sz, accounted = []\<rparr>"

definition Account :: "int \<Rightarrow> 'c QuantileAgg \<Rightarrow> 'c QuantileAgg" where
  "Account n a = a\<lparr>accounted := accounted a @ [n]\<rparr>"

text \<open>
  \<open>popFreeDigest\<close> returns nil on an empty list, otherwise the last digest, and
  shortens the slice (the capacity stays).
\<close>

definition popFreeDigest :: "'c QuantileAgg \<Rightarrow> TDigest option \<times> 'c QuantileAgg" where
  "popFreeDigest a =
     (if length (freeDigests a) < 1 then (None, a)
      else (Some (last (freeDigests a)), a\<lparr>freeDigests := butlast (freeDigests a)\<rparr>))"

text \<open>
  The byte size of a digest, \<open>tdigest.ByteSizeForCompression\<close>, belongs to the
  t-digest library: it is the parameter \<open>bs\<close> of every operation that accounts.
\<close>

definition pushFreeDigest ::
  "('c \<Rightarrow> int) \<Rightarrow> TDigest option \<Rightarrow> 'c QuantileAgg \<Rightarrow> 'c QuantileAgg" where
  "pushFreeDigest bs d a =
     (case d of
        None \<Rightarrow> a
      | Some dg \<Rightarrow>
          if length (freeDigests a) < freeCap a
          then a\<lparr>freeDigests := freeDigests a @ [Reset dg]\<rparr>
          else Account (bs (Compression a) * (- 1)) a)"

definition NewFloatAgg ::
  "('c \<Rightarrow> int) \<Rightarrow> 'c QuantileAgg \<Rightarrow> QuantileAggState \<times> 'c QuantileAgg" where
  "NewFloatAgg bs a =
     (if length (freeDigests a) > 0
      then (case popFreeDigest a of (d, a') \<Rightarrow> (\<lparr>digest = d, ok = False\<rparr>, a'))
      else (\<lparr>digest = Some (NewWithCompression (Compression a)), ok = False\<rparr>,
            Account (bs (Compression a)) a))"

definition NewIntAgg ::
  "('c \<Rightarrow> int) \<Rightarrow> 'c QuantileAgg \<Rightarrow> QuantileAggState \<times> 'c QuantileAgg" where
  "NewIntAgg bs a = NewFloatAgg bs a"

definition NewUIntAgg ::
  "('c \<Rightarrow> int) \<Rightarrow> 'c QuantileAgg \<Rightarrow> QuantileAggState \<times> 'c QuantileAgg" where
  "NewUIntAgg bs a = NewFloatAgg bs a"

text \<open>\<open>QuantileAgg.Close\<close>: one negative accounting for each digest on the free list.\<close>

fun Close_loop :: "int \<Rightarrow> nat \<Rightarrow> 'c QuantileAgg \<Rightarrow> 'c QuantileAgg" where
  "Close_loop b 0 a = a"
| "Close_loop b (Suc k) a = Close_loop b k (Account (b * (- 1)) a)"

definition QuantileAgg_Close :: "('c \<Rightarrow> int) \<Rightarrow> 'c QuantileAgg \<Rightarrow> 'c QuantileAgg" where
  "QuantileAgg_Close bs a =
     (Close_loop (bs (Compression a)) (length (freeDigests a)) a)
       \<lparr>freeDigests := [], freeCap := 0\<rparr>"

text \<open>\<open>QuantileAggState.Close\<close> gives the digest back to the parent and forgets it.\<close>

definition QuantileAggState_Close ::
  "('c \<Rightarrow> int) \<Rightarrow> QuantileAggState \<Rightarrow> 'c QuantileAgg \<Rightarrow> QuantileAggState \<times> 'c QuantileAgg" where
  "QuantileAggState_Close bs s a = (s\<lparr>digest := None\<rparr>, pushFreeDigest bs (digest s) a)"

text \<open>
  A run of the aggregate: the aggregate and the states it has handed out, in the order
  of their creation. A call names the state it closes by its position.
\<close>

datatype AggCall = CallNewFloatAgg | CallNewIntAgg | CallNewUIntAgg | CallStateClose nat
  | CallAggClose

record 'c AggWorld =
  agg :: "'c QuantileAgg"
  states :: "QuantileAggState list"

definition agg_call :: "('c \<Rightarrow> int) \<Rightarrow> 'c AggWorld \<Rightarrow> AggCall \<Rightarrow> 'c AggWorld" where
  "agg_call bs w c =
     (case c of
        CallNewFloatAgg \<Rightarrow>
          (case NewFloatAgg bs (agg w) of (s, a) \<Rightarrow> \<lparr>agg = a, states = states w @ [s]\<rparr>)
      | CallNewIntAgg \<Rightarrow>
          (case NewIntAgg bs (agg w) of (s, a) \<Rightarrow> \<lparr>agg = a, states = states w @ [s]\<rparr>)
      | CallNewUIntAgg \<Rightarrow>
          (case NewUIntAgg bs (agg w) of (s, a) \<Rightarrow> \<lparr>agg = a, states = states w @ [s]\<rparr>)
      | CallStateClose k \<Rightarrow>
          (if k < length (states w)
           then (case QuantileAggState_Close bs (states w ! k) (agg w) of
                   (s, a) \<Rightarrow> \<lparr>agg = a, states = (states w)[k := s]\<rparr>)
           else w)
      | CallAggClose \<Rightarrow> w\<lparr>agg := QuantileAgg_Close bs (agg w)\<rparr>)"

definition agg_run :: "('c \<Rightarrow> int) \<Rightarrow> 'c AggWorld \<Rightarrow> AggCall list \<Rightarrow> 'c AggWorld" where
  "agg_run bs w cs = foldl (agg_call bs) w cs"

definition agg_start :: "'c \<Rightarrow> 'c \<Rightarrow> nat \<Rightarrow> 'c AggWorld" where
  "agg_start q cmpr sz = \<lparr>agg = NewQuantileAgg q cmpr sz, states = []\<rparr>"

definition net_accounted :: "'c AggWorld \<Rightarrow> int" where
  "net_accounted w = sum_list (accounted (agg w))"

definition open_states :: "'c AggWorld \<Rightarrow> nat" where
  "open_states w = length (filter (\<lambda>s. digest s \<noteq> None) (states w))"

text \<open>
  The quantity that no call changes: the bytes accounted so far, less one digest size for
  every digest alive (on the free list or held by an open state).
\<close>

definition balance :: "('c \<Rightarrow> int) \<Rightarrow> 'c AggWorld \<Rightarrow> int" where
  "balance bs w =
     net_accounted w
       - bs (Compression (agg w)) * (int (length (freeDigests (agg w))) + int (open_states w))"

section \<open>Errors and identifiers shared by the execution engine\<close>

text \<open>
  An error of the engine carries a code, a message and the error it wraps, if any
  (\<open>errors.New\<close>, \<open>errors.Newf\<close>, \<open>errors.Wrap\<close>). An error made by
  \<open>fmt.Errorf\<close> has no code of its own: its code reads as \<open>Unknown\<close>.
\<close>

datatype Code = Inherit | Unknown | Invalid | Internal | Unimplemented | FailedPrecondition

datatype error = Error (Code: Code) (Msg: string) (Err: "error option")

definition errors_New :: "Code \<Rightarrow> string \<Rightarrow> error" where
  "errors_New c msg = Error c msg None"

definition errors_Wrap :: "error \<Rightarrow> Code \<Rightarrow> string \<Rightarrow> error" where
  "errors_Wrap e c msg = Error c msg (Some e)"

definition fmt_Errorf :: "string \<Rightarrow> error" where
  "fmt_Errorf msg = Error Unknown msg None"

text \<open>
  Modelled from the spec: the classification of an error (the package of errors is not
  part of the sources). A wrapped error "keeps its original classification" when the
  wrapper's code is \<open>Inherit\<close>; otherwise the wrapper's code classifies it.
\<close>

fun errors_Code :: "error \<Rightarrow> Code" where
  "errors_Code (Error c msg w) =
     (if c = Inherit then (case w of None \<Rightarrow> Unknown | Some e \<Rightarrow> errors_Code e) else c)"

text \<open>
  Modelled from the spec: a \<open>DatasetID\<close> is "derived deterministically from
  (plan-node identity, replica index)", and no two replicas share one. The zero value
  of the Go type is a third, distinct value.
\<close>

datatype DatasetID = ZeroDatasetID | datasetIDFromNodeID string nat

text \<open>\<open>execute.Time\<close> is a signed 64-bit integer (nanoseconds).\<close>

type_synonym Time = "64 word"

definition MaxInt64 :: Time where
  "MaxInt64 = 9223372036854775807"

section \<open>The diff transformation: a node with two parents (stdlib/testing/diff)\<close>

record diffParentState =
  mark :: Time
  processing :: Time
  finished :: bool

definition new_diffParentState :: diffParentState where
  "new_diffParentState = \<lparr>mark = 0, processing = 0, finished = False\<rparr>"

text \<open>
  Modelled from the spec: the transformation's own \<open>Dataset\<close>, an interface of the
  engine that is not part of the sources, "forwards watermark and processing-time
  updates and the terminal Finish signal downstream". The model keeps the calls it
  receives, oldest first, and the error it answers to each of them.
\<close>

datatype DatasetCall =
  CallUpdateWatermark Time | CallUpdateProcessingTime Time | CallFinish "error option"

record Dataset =
  calls :: "DatasetCall list"
  reply :: "DatasetCall \<Rightarrow> error option"

definition Dataset_UpdateWatermark :: "Dataset \<Rightarrow> Time \<Rightarrow> error option \<times> Dataset" where
  "Dataset_UpdateWatermark ds m =
     (reply ds (CallUpdateWatermark m), ds\<lparr>calls := calls ds @ [CallUpdateWatermark m]\<rparr>)"

definition Dataset_Finish :: "Dataset \<Rightarrow> error option \<Rightarrow> Dataset" where
  "Dataset_Finish ds err = ds\<lparr>calls := calls ds @ [CallFinish err]\<rparr>"

text \<open>
  A buffered table: the parent it came from, its columns (opaque here) and its number of
  rows. \<open>&tableBuffer{}\<close> is the zero value.
\<close>

record 'b tableBuffer =
  tb_id :: DatasetID
  columns :: "'b list"
  sz :: int

definition empty_tableBuffer :: "'b tableBuffer" where
  "empty_tableBuffer = \<lparr>tb_id = ZeroDatasetID, columns = [], sz = 0\<rparr>"

text \<open>
  \<open>parentState\<close> is a Go map from parent to a pointer to its state: an association list
  with one entry for each key. \<open>inputCache\<close> holds the tables of one parent that wait
  for the table of the other, by group key.
\<close>

record ('k, 'b) DiffTransformation =
  wantID :: DatasetID
  gotID :: DatasetID
  parentState :: "(DatasetID \<times> diffParentState) list"
  d :: Dataset
  inputCache :: "('k \<times> 'b tableBuffer) list"

definition NewDiffTransformation ::
  "Dataset \<Rightarrow> DatasetID \<Rightarrow> DatasetID \<Rightarrow> ('k, 'b) DiffTransformation" where
  "NewDiffTransformation ds want got =
     \<lparr>wantID = want, gotID = got,
      parentState = AList.update got new_diffParentState
                      (AList.update want new_diffParentState []),
      d = ds, inputCache = []\<rparr>"

text \<open>
  \<open>UpdateWatermark\<close>: \<open>t.parentState[id].mark = mark\<close> dereferences the pointer stored
  for \<open>id\<close>; for an \<open>id\<close> that is no parent the pointer is nil and the call panics
  (\<open>None\<close>). The result is the Dataset's answer and the new state.
\<close>

definition watermark_min :: "(DatasetID \<times> diffParentState) list \<Rightarrow> Time" where
  "watermark_min ps =
     foldl (\<lambda>mn (k, state). if mark state <s mn then mark state else mn) MaxInt64 ps"

definition UpdateWatermark ::
  "('k, 'b) DiffTransformation \<Rightarrow> DatasetID \<Rightarrow> Time
     \<Rightarrow> (error option \<times> ('k, 'b) DiffTransformation) option" where
  "UpdateWatermark t id' m =
     (case map_of (parentState t) id' of
        None \<Rightarrow> None
      | Some st \<Rightarrow>
          let ps = AList.update id' (st\<lparr>mark := m\<rparr>) (parentState t);
              mn = watermark_min ps
          in (case Dataset_UpdateWatermark (d t) mn of
                (r, d') \<Rightarrow> Some (r, t\<lparr>parentState := ps, d := d'\<rparr>)))"

text \<open>
  Modelled from the spec: when all parents have finished the node "must flush any
  retained cross-parent state". The lookup type of \<open>inputCache\<close> is not part of the
  sources: \<open>Range\<close> calls its argument on each retained table in order and stops at the
  first error.
\<close>

fun Range :: "('k \<Rightarrow> 'v \<Rightarrow> error option) \<Rightarrow> ('k \<times> 'v) list \<Rightarrow> error option" where
  "Range f [] = None"
| "Range f ((k, v) # es) = (case f k v of Some e \<Rightarrow> Some e | None \<Rightarrow> Range f es)"

text \<open>
  \<open>Finish\<close>. The loop over \<open>parentState\<close> is \<open>all_finished\<close>; the function passed to
  \<open>Range\<close> diffs a retained table against an empty one, on the side its parent says;
  \<open>t.diff\<close> itself is the parameter \<open>diff\<close>. \<open>None\<close> is the panic on an \<open>id\<close> that
  is no parent.
\<close>

definition all_finished :: "(DatasetID \<times> diffParentState) list \<Rightarrow> bool" where
  "all_finished ps = foldl (\<lambda>fin (k, state). fin \<and> finished state) True ps"

definition flush ::
  "('k \<Rightarrow> 'b tableBuffer \<Rightarrow> 'b tableBuffer \<Rightarrow> error option)
     \<Rightarrow> ('k, 'b) DiffTransformation \<Rightarrow> error option" where
  "flush diff t =
     Range (\<lambda>key obj. if tb_id obj = wantID t then diff key obj empty_tableBuffer
                       else diff key empty_tableBuffer obj) (inputCache t)"

definition Finish ::
  "('k \<Rightarrow> 'b tableBuffer \<Rightarrow> 'b tableBuffer \<Rightarrow> error option)
     \<Rightarrow> ('k, 'b) DiffTransformation \<Rightarrow> DatasetID \<Rightarrow> error option
     \<Rightarrow> ('k, 'b) DiffTransformation option" where
  "Finish diff t id' err =
     (case map_of (parentState t) id' of
        None \<Rightarrow> None
      | Some st \<Rightarrow>
          let ps = AList.update id' (st\<lparr>finished := True\<rparr>) (parentState t);
              d1 = (if err \<noteq> None then Dataset_Finish (d t) err else d t)
          in if all_finished ps
             then Some (t\<lparr>parentState := ps, d := Dataset_Finish d1 (flush diff t)\<rparr>)
             else Some (t\<lparr>parentState := ps, d := d1\<rparr>))"

section \<open>The physical plan (package plan, as the executor reads it)\<close>

text \<open>
  Modelled from the spec: a procedure spec is an interface value with an "operation
  kind", that may be a pass-through yield marker with a name, and that is or is not
  "flagged as side-effecting". The executor asks these three things of it:
  \<open>spec.Kind()\<close>, the type assertion to \<open>plan.YieldProcedureSpec\<close> with
  \<open>YieldName()\<close>, and \<open>plan.HasSideEffect(spec)\<close>.
\<close>

datatype ProcedureSpec = Procedure (Kind: string) (YieldName: "string option") (HasSideEffect: bool)

text \<open>
  A plan node: its identity, whether it is a \<open>*plan.PhysicalPlanNode\<close>, its spec, its
  predecessors, the identities of its successors, its bounds, and the two output
  attributes the executor reads (\<open>ParallelRunKey\<close> and \<open>ParallelMergeKey\<close>, each with
  its \<open>Factor\<close>).
\<close>

datatype PlanNode = PlanNode
  (ID: string)
  (isPhysical: bool)
  (ProcedureSpec: ProcedureSpec)
  (Predecessors: "PlanNode list")
  (Successors: "string list")
  (Bounds: "(Time \<times> Time) option")
  (ParallelRun: "int option")
  (ParallelMerge: "int option")

record ResourceManagement =
  MemoryBytesQuota :: int
  ConcurrencyQuota :: int

text \<open>
  Modelled from the spec: the plan is "a DAG with a deterministic bottom-up traversal
  order". \<open>plan.Spec.BottomUpWalk\<close> and \<open>plan.Spec.TopDownWalk\<close> are not part of the
  sources; the nodes in the order each walk visits them are given with the plan.
  \<open>Roots\<close> is a Go set of nodes, listed without repetition.
\<close>

record Spec =
  Roots :: "PlanNode list"
  Resources :: ResourceManagement
  BottomUpOrder :: "PlanNode list"
  TopDownOrder :: "PlanNode list"

text \<open>
  \<open>plan.DefaultYieldName\<close> is not part of the sources; the comments of \<open>Visit\<close> and
  \<open>getResultName\<close> give its value.
\<close>

definition DefaultYieldName :: string where
  "DefaultYieldName = ''_result''"

section \<open>The executor (execute/executor.go)\<close>

record ParallelOpts =
  Group :: int
  Factor :: int

record executionContext =
  parents :: "DatasetID list"
  streamContext :: "(Time \<times> Time) option"
  parallelOpts :: ParallelOpts

text \<open>
  What is attached downstream of an execution node by \<open>AddTransformation\<close>: a result, by
  its name, or a transport towards the transformation of a dataset.
\<close>

datatype Downstream = ToResult string | ToTransport DatasetID

record Node =
  node_id :: DatasetID
  node_label :: string
  downstream :: "Downstream list"

text \<open>
  Modelled from the spec: a \<open>Result\<close> is "a named terminal sink" that "can be aborted
  with an error, which must propagate to the caller as a terminal state"; abort "marks
  every open Result as failed" (\<open>newResult\<close> and \<open>result.abort\<close> are not part of the
  sources). A new result is open; aborting an open result fails it with the error; the
  failed state is terminal, so aborting a failed result changes nothing.
\<close>

record result =
  result_name :: string
  abortErr :: "error option"

definition newResult :: "string \<Rightarrow> result" where
  "newResult n = \<lparr>result_name = n, abortErr = None\<rparr>"

definition result_abort :: "error \<Rightarrow> result \<Rightarrow> result" where
  "result_abort e r = (if abortErr r = None then r\<lparr>abortErr := Some e\<rparr> else r)"

record executionState =
  resources :: ResourceManagement
  results :: "string \<rightharpoonup> result"
  sources :: "Node list"
  metaChCap :: nat
  transports :: "DatasetID list"
  cancelled :: bool

text \<open>
  \<open>createExecutionNodeVisitor\<close>: the execution state and, for each plan node visited, its
  replicas. A slot made by \<open>make([]Node, copies)\<close> and not yet filled is nil (\<open>None\<close>).
\<close>

record visitor =
  es :: executionState
  nodes :: "PlanNode \<rightharpoonup> Node option list"

text \<open>
  \<open>skipYields\<close> follows the first predecessor while the node is a yield;
  \<open>pn.Predecessors()[0]\<close> panics (\<open>None\<close>) on a yield without predecessor.
\<close>

fun skipYields :: "PlanNode \<Rightarrow> PlanNode option" where
  "skipYields (PlanNode i ph sp preds succs b pr pm) =
     (if YieldName sp \<noteq> None
      then (case preds of [] \<Rightarrow> None | p # ps \<Rightarrow> skipYields p)
      else Some (PlanNode i ph sp preds succs b pr pm))"

definition nonYieldPredecessors :: "PlanNode \<Rightarrow> PlanNode list option" where
  "nonYieldPredecessors pn = those (map skipYields (Predecessors pn))"

text \<open>The replication factors read from the output attributes, 1 when absent.\<close>

definition node_copies :: "PlanNode \<Rightarrow> int" where
  "node_copies node = (case ParallelRun node of Some f \<Rightarrow> f | None \<Rightarrow> 1)"

definition node_predCopies :: "PlanNode \<Rightarrow> int" where
  "node_predCopies node = (case ParallelMerge node of Some f \<Rightarrow> f | None \<Rightarrow> 1)"

text \<open>
  The parents of replica \<open>i\<close>: a slice of \<open>len(node.Predecessors()) * predCopies\<close> zero
  identifiers, filled at \<open>pi * predCopies + j\<close> for each resolved predecessor \<open>pi\<close> and
  each \<open>j < predCopies\<close>. \<open>make\<close> panics on a negative length.
\<close>

definition fill_parents :: "nat \<Rightarrow> nat \<Rightarrow> PlanNode list \<Rightarrow> DatasetID list \<Rightarrow> DatasetID list" where
  "fill_parents i predCopies preds ps0 =
     fold (\<lambda>(pi, pred) ps.
             fold (\<lambda>j ps. ps[pi * predCopies + j := datasetIDFromNodeID (ID pred) (i + j)])
               [0..<predCopies] ps)
       (enumerate 0 preds) ps0"

definition new_executionContext ::
  "PlanNode \<Rightarrow> int \<Rightarrow> int \<Rightarrow> nat \<Rightarrow> executionContext option" where
  "new_executionContext node copies predCopies i =
     (if int (length (Predecessors node)) * predCopies < 0 then None
      else (case nonYieldPredecessors node of
              None \<Rightarrow> None
            | Some preds \<Rightarrow>
                Some \<lparr>parents =
                        fill_parents i (nat predCopies) preds
                          (replicate (nat (int (length (Predecessors node)) * predCopies))
                             ZeroDatasetID),
                      streamContext = Bounds node,
                      parallelOpts = \<lparr>Group = int i, Factor = copies\<rparr>\<rparr>))"

definition executionContexts :: "PlanNode \<Rightarrow> int \<Rightarrow> int \<Rightarrow> executionContext list option" where
  "executionContexts node copies predCopies =
     (if copies < 0 then None
      else those (map (new_executionContext node copies predCopies) [0..<nat copies]))"

text \<open>
  The registries \<open>procedureToSource\<close> and \<open>procedureToTransformation\<close>: for a registered
  kind, the constructor, of which the model keeps whether it fails.
\<close>

record Registry =
  procedureToSource ::
    "string \<rightharpoonup> (ProcedureSpec \<Rightarrow> DatasetID \<Rightarrow> executionContext \<Rightarrow> error option)"
  procedureToTransformation ::
    "string \<rightharpoonup> (DatasetID \<Rightarrow> ProcedureSpec \<Rightarrow> executionContext \<Rightarrow> error option)"

text \<open>
  \<open>v.nodes[p][k].AddTransformation(t)\<close> panics when \<open>p\<close> has no replicas recorded, when
  \<open>k\<close> is out of range, and when the slot is nil.
\<close>

definition AddTransformation :: "PlanNode \<Rightarrow> nat \<Rightarrow> Downstream \<Rightarrow> visitor \<Rightarrow> visitor option" where
  "AddTransformation p k t v =
     (case nodes v p of
        None \<Rightarrow> None
      | Some ns \<Rightarrow>
          if k < length ns
          then (case ns ! k of
                  None \<Rightarrow> None
                | Some n \<Rightarrow>
                    Some (v\<lparr>nodes := (nodes v)
                           (p \<mapsto> ns[k := Some (n\<lparr>downstream := downstream n @ [t]\<rparr>)])\<rparr>))
          else None)"

definition set_node :: "PlanNode \<Rightarrow> nat \<Rightarrow> Node \<Rightarrow> visitor \<Rightarrow> visitor" where
  "set_node node i n v =
     (case nodes v node of
        None \<Rightarrow> v
      | Some ns \<Rightarrow> v\<lparr>nodes := (nodes v)(node \<mapsto> ns[i := Some n])\<rparr>)"

text \<open>\<open>generateResult\<close>: the error, if any, and the visitor after the call.\<close>

definition generateResult ::
  "string \<Rightarrow> PlanNode \<Rightarrow> nat \<Rightarrow> visitor \<Rightarrow> (error option \<times> visitor) option" where
  "generateResult resultName node idx v =
     (if results (es v) resultName \<noteq> None
      then Some (Some (errors_New Invalid
                  (''tried to produce more than one result with the name '' @ resultName)), v)
      else
        let v1 = v\<lparr>es := (es v)\<lparr>results := (results (es v))(resultName \<mapsto> newResult resultName)\<rparr>\<rparr>
        in (case skipYields node of
              None \<Rightarrow> None
            | Some n \<Rightarrow>
                (case AddTransformation n idx (ToResult resultName) v1 of
                   None \<Rightarrow> None
                 | Some v2 \<Rightarrow> Some (None, v2))))"

definition getResultName :: "PlanNode \<Rightarrow> ProcedureSpec \<Rightarrow> bool \<Rightarrow> error + string" where
  "getResultName node spec isParallelMerge =
     (if isParallelMerge \<and> length (Predecessors node) \<noteq> 1
      then Inl (errors_New Internal ''parallel merge must have a single predecessor'')
      else
        let spec' = (if isParallelMerge then ProcedureSpec (Predecessors node ! 0) else spec)
        in Inr (if HasSideEffect spec' then ID node else DefaultYieldName))"

text \<open>The loop that creates one source for each replica of a leaf.\<close>

fun create_sources ::
  "(ProcedureSpec \<Rightarrow> DatasetID \<Rightarrow> executionContext \<Rightarrow> error option)
     \<Rightarrow> PlanNode \<Rightarrow> executionContext list \<Rightarrow> nat list \<Rightarrow> visitor \<Rightarrow> error option \<times> visitor" where
  "create_sources f node ec [] v = (None, v)"
| "create_sources f node ec (i # is) v =
     (case f (ProcedureSpec node) (datasetIDFromNodeID (ID node) i) (ec ! i) of
        Some e \<Rightarrow> (Some e, v)
      | None \<Rightarrow>
          let source = \<lparr>node_id = datasetIDFromNodeID (ID node) i, node_label = ID node,
                        downstream = []\<rparr>
          in create_sources f node ec is
               (set_node node i source (v\<lparr>es := (es v)\<lparr>sources := sources (es v) @ [source]\<rparr>\<rparr>)))"

text \<open>
  For one replica \<open>i\<close> of an internal node: a transport from replica \<open>i + j\<close> of each
  resolved predecessor, for each \<open>j < predCopies\<close>.
\<close>

fun link_copies :: "DatasetID \<Rightarrow> PlanNode \<Rightarrow> nat \<Rightarrow> nat list \<Rightarrow> visitor \<Rightarrow> visitor option" where
  "link_copies tr p i [] v = Some v"
| "link_copies tr p i (j # js) v =
     (case AddTransformation p (i + j) (ToTransport tr)
             (v\<lparr>es := (es v)\<lparr>transports := transports (es v) @ [tr]\<rparr>\<rparr>) of
        None \<Rightarrow> None
      | Some v' \<Rightarrow> link_copies tr p i js v')"

fun link_predecessors ::
  "DatasetID \<Rightarrow> PlanNode list \<Rightarrow> nat \<Rightarrow> nat \<Rightarrow> visitor \<Rightarrow> visitor option" where
  "link_predecessors tr [] i predCopies v = Some v"
| "link_predecessors tr (p # ps) i predCopies v =
     (case link_copies tr p i [0..<predCopies] v of
        None \<Rightarrow> None
      | Some v' \<Rightarrow> link_predecessors tr ps i predCopies v')"

fun create_transformations ::
  "(DatasetID \<Rightarrow> ProcedureSpec \<Rightarrow> executionContext \<Rightarrow> error option)
     \<Rightarrow> PlanNode \<Rightarrow> executionContext list \<Rightarrow> nat \<Rightarrow> nat list \<Rightarrow> visitor
     \<Rightarrow> (error option \<times> visitor) option" where
  "create_transformations f node ec predCopies [] v = Some (None, v)"
| "create_transformations f node ec predCopies (i # is) v =
     (case f (datasetIDFromNodeID (ID node) i) (ProcedureSpec node) (ec ! i) of
        Some e \<Rightarrow> Some (Some e, v)
      | None \<Rightarrow>
          let ds = \<lparr>node_id = datasetIDFromNodeID (ID node) i, node_label = ID node,
                    downstream = []\<rparr>;
              v1 = set_node node i ds v
          in (case nonYieldPredecessors node of
                None \<Rightarrow> None
              | Some preds \<Rightarrow>
                  (case link_predecessors (datasetIDFromNodeID (ID node) i) preds i predCopies v1 of
                     None \<Rightarrow> None
                   | Some v2 \<Rightarrow> create_transformations f node ec predCopies is v2)))"

text \<open>
  The middle of \<open>Visit\<close>: a leaf becomes \<open>copies\<close> sources, an internal node
  \<open>copies\<close> transformations, each linked to its predecessors; a kind that is not
  registered is an error.
\<close>

definition create_nodes ::
  "Registry \<Rightarrow> PlanNode \<Rightarrow> executionContext list \<Rightarrow> int \<Rightarrow> int \<Rightarrow> visitor
     \<Rightarrow> (error option \<times> visitor) option" where
  "create_nodes reg node ec copies predCopies v =
     (let kind = Kind (ProcedureSpec node)
      in if length (Predecessors node) = 0
         then (case procedureToSource reg kind of
                 None \<Rightarrow> Some (Some (fmt_Errorf (''unsupported source kind '' @ kind)), v)
               | Some createSourceFn \<Rightarrow>
                   Some (create_sources createSourceFn node ec [0..<nat copies] v))
         else (case procedureToTransformation reg kind of
                 None \<Rightarrow> Some (Some (fmt_Errorf (''unsupported procedure '' @ kind)), v)
               | Some createTransformationFn \<Rightarrow>
                   create_transformations createTransformationFn node ec
                     (nat predCopies) [0..<nat copies] v))"

text \<open>
  The end of \<open>Visit\<close>: a node without successors gets a result, under the name that
  \<open>getResultName\<close> chooses.
\<close>

definition terminal_result :: "PlanNode \<Rightarrow> bool \<Rightarrow> visitor \<Rightarrow> (error option \<times> visitor) option" where
  "terminal_result node isParallelMerge v =
     (if length (Successors node) = 0
      then (case getResultName node (ProcedureSpec node) isParallelMerge of
              Inl e \<Rightarrow> Some (Some e, v)
            | Inr resultName \<Rightarrow> generateResult resultName node 0 v)
      else Some (None, v))"

text \<open>\<open>Visit\<close>: \<open>None\<close> is a panic, otherwise the error returned and the visitor.\<close>

definition Visit :: "Registry \<Rightarrow> PlanNode \<Rightarrow> visitor \<Rightarrow> (error option \<times> visitor) option" where
  "Visit reg node v =
     (if \<not> isPhysical node then Some (Some (fmt_Errorf ''cannot execute plan node of type''), v)
      else
        (case YieldName (ProcedureSpec node) of
           Some yieldName \<Rightarrow> generateResult yieldName node 0 v
         | None \<Rightarrow>
             let copies = node_copies node;
                 isParallelMerge = (ParallelMerge node \<noteq> None);
                 predCopies = node_predCopies node
             in (case executionContexts node copies predCopies of
                   None \<Rightarrow> None
                 | Some ec \<Rightarrow>
                     (case create_nodes reg node ec copies predCopies
                             (v\<lparr>nodes := (nodes v)(node \<mapsto> replicate (nat copies) None)\<rparr>) of
                        None \<Rightarrow> None
                      | Some (Some e, v2) \<Rightarrow> Some (Some e, v2)
                      | Some (None, v2) \<Rightarrow> terminal_result node isParallelMerge v2))))"

text \<open>
  Modelled from the spec: \<open>BottomUpWalk\<close> calls the visitor on each node of the plan in
  bottom-up order and stops at the first error.
\<close>

fun walk ::
  "(PlanNode \<Rightarrow> visitor \<Rightarrow> (error option \<times> visitor) option) \<Rightarrow> PlanNode list \<Rightarrow> visitor
     \<Rightarrow> (error option \<times> visitor) option" where
  "walk f [] v = Some (None, v)"
| "walk f (n # ns) v =
     (case f n v of
        None \<Rightarrow> None
      | Some (Some e, v') \<Rightarrow> Some (Some e, v')
      | Some (None, v') \<Rightarrow> walk f ns v')"

definition BottomUpWalk ::
  "Spec \<Rightarrow> (PlanNode \<Rightarrow> visitor \<Rightarrow> (error option \<times> visitor) option) \<Rightarrow> visitor
     \<Rightarrow> (error option \<times> visitor) option" where
  "BottomUpWalk p f v = walk f (BottomUpOrder p) v"

definition validate :: "executionState \<Rightarrow> error option" where
  "validate s =
     (if ConcurrencyQuota (resources s) = 0
      then Some (errors_New Invalid ''execution state must have a non-zero concurrency quota'')
      else None)"

text \<open>
  The context carries execution dependencies or not; with them come the execution
  options \<open>DefaultMemoryLimit\<close> and \<open>ConcurrencyLimit\<close>.
\<close>

record ExecutionOptions =
  DefaultMemoryLimit :: int
  ConcurrencyLimit :: int

record Context =
  ExecutionDependencies :: "ExecutionOptions option"

definition math_MaxInt64 :: int where
  "math_MaxInt64 = 9223372036854775807"

definition getResourceLimits :: "Context \<Rightarrow> int \<times> int" where
  "getResourceLimits ctx =
     (case ExecutionDependencies ctx of
        None \<Rightarrow> (0, math_MaxInt64)
      | Some execOptions \<Rightarrow> (DefaultMemoryLimit execOptions, ConcurrencyLimit execOptions))"

text \<open>
  The callback of the top-down walk in \<open>chooseDefaultResources\<close>. The type assertion
  \<open>node.(*plan.PhysicalPlanNode)\<close> is unchecked: it panics (\<open>None\<close>) on another node.
  Quotas, limits and factors are Go \<open>int\<close>s, modelled as integers: the sum is taken
  without the 64-bit wrap-around of Go, which only a sum of factors of \<open>2^63\<close> or more
  would meet.
\<close>

definition count_node :: "PlanNode \<Rightarrow> int \<Rightarrow> int option" where
  "count_node node concurrencyQuota =
     (if length (Predecessors node) > 0
      then (if isPhysical node
            then Some (concurrencyQuota
                        + (case ParallelRun node of Some f \<Rightarrow> f | None \<Rightarrow> 1))
            else None)
      else Some concurrencyQuota)"

fun TopDownWalk_count :: "PlanNode list \<Rightarrow> int \<Rightarrow> int option" where
  "TopDownWalk_count [] q = Some q"
| "TopDownWalk_count (n # ns) q =
     (case count_node n q of None \<Rightarrow> None | Some q' \<Rightarrow> TopDownWalk_count ns q')"

definition chooseDefaultResources :: "Context \<Rightarrow> Spec \<Rightarrow> executionState \<Rightarrow> executionState option" where
  "chooseDefaultResources ctx p s =
     (case getResourceLimits ctx of
        (defaultMemoryLimit, concurrencyLimit) \<Rightarrow>
          let r1 = (if MemoryBytesQuota (resources s) = 0
                    then (resources s)\<lparr>MemoryBytesQuota := defaultMemoryLimit\<rparr>
                    else resources s)
          in if ConcurrencyQuota r1 = 0
             then
               let r2 = r1\<lparr>ConcurrencyQuota := int (length (Roots p))\<rparr>
               in if concurrencyLimit > 0
                  then (case TopDownWalk_count (TopDownOrder p) 0 of
                          None \<Rightarrow> None
                        | Some concurrencyQuota \<Rightarrow>
                            Some (s\<lparr>resources := r2\<lparr>ConcurrencyQuota :=
                                    (if concurrencyQuota > concurrencyLimit then concurrencyLimit
                                     else if concurrencyQuota = 0 then 1
                                     else concurrencyQuota)\<rparr>\<rparr>))
                  else Some (s\<lparr>resources := r2\<rparr>)
             else Some (s\<lparr>resources := r1\<rparr>))"

text \<open>\<open>abort\<close>: every registered result is aborted with the error, then the run context
  is cancelled.\<close>

definition abort :: "error \<Rightarrow> executionState \<Rightarrow> executionState" where
  "abort err s =
     s\<lparr>results := (\<lambda>n. map_option (result_abort err) (results s n)), cancelled := True\<rparr>"

text \<open>
  \<open>do\<close> starts the run: one unit for each source, the dispatcher with the concurrency
  quota, the watcher and the closer of the metadata channel. The model keeps what is
  started, in that order; what the units then do concurrently is outside of it.
\<close>

datatype Started = SourceRun DatasetID | DispatcherStart int | Watcher | MetadataCloser

definition do :: "executionState \<Rightarrow> Started list" where
  "do s = map (\<lambda>src. SourceRun (node_id src)) (sources s)
            @ [DispatcherStart (ConcurrencyQuota (resources s)), Watcher, MetadataCloser]"

definition new_visitor :: "Spec \<Rightarrow> visitor" where
  "new_visitor p =
     \<lparr>es = \<lparr>resources = Resources p, results = Map.empty, sources = [], metaChCap = 0,
             transports = [], cancelled = False\<rparr>,
      nodes = Map.empty\<rparr>"

definition createExecutionState :: "Registry \<Rightarrow> Context \<Rightarrow> Spec \<Rightarrow> (error + executionState) option" where
  "createExecutionState reg ctx p =
     (case BottomUpWalk p (Visit reg) (new_visitor p) of
        None \<Rightarrow> None
      | Some (Some err, v) \<Rightarrow> Some (Inl err)
      | Some (None, v) \<Rightarrow>
          (case chooseDefaultResources ctx p
                  ((es v)\<lparr>metaChCap := length (sources (es v))\<rparr>) of
             None \<Rightarrow> None
           | Some s \<Rightarrow>
               (case validate s of
                  Some err \<Rightarrow> Some (Inl (errors_Wrap err Invalid ''execution state''))
                | None \<Rightarrow> Some (Inr s))))"

text \<open>
  \<open>Execute\<close> returns the results, the metadata channel (here its capacity) and the
  error; the model pairs them with what \<open>do\<close> has started.
\<close>

record ExecuteReturn =
  ret_results :: "(string \<rightharpoonup> result) option"
  ret_metaCh :: "nat option"
  ret_err :: "error option"

definition Execute :: "Registry \<Rightarrow> Context \<Rightarrow> Spec \<Rightarrow> (ExecuteReturn \<times> Started list) option" where
  "Execute reg ctx p =
     (case createExecutionState reg ctx p of
        None \<Rightarrow> None
      | Some (Inl err) \<Rightarrow>
          Some (\<lparr>ret_results = None, ret_metaCh = None,
                  ret_err = Some (errors_Wrap err Inherit ''failed to initialize execute state'')\<rparr>,
                [])
      | Some (Inr s) \<Rightarrow>
          Some (\<lparr>ret_results = Some (results s), ret_metaCh = Some (metaChCap s),
                  ret_err = None\<rparr>,
                do s))"

text \<open>
  The sum the walk of \<open>chooseDefaultResources\<close> computes: the parallel-run factor (1 when
  the attribute is absent) of every node with at least one predecessor.
\<close>

definition internal_factor_sum :: "PlanNode list \<Rightarrow> int" where
  "internal_factor_sum ns = sum_list (map node_copies (filter (\<lambda>n. Predecessors n \<noteq> []) ns))"

text \<open>
  Concrete plans for the examples. A chain \<open>from |> map |> filter\<close> without parallelism;
  the same chain ended by \<open>yield(name: "out")\<close>; a chain replicated twice and merged.
\<close>

definition ex_registry :: Registry where
  "ex_registry =
     \<lparr>procedureToSource = [''from'' \<mapsto> (\<lambda>sp i ec. None)],
      procedureToTransformation =
        [''filter'' \<mapsto> (\<lambda>i sp ec. None), ''map'' \<mapsto> (\<lambda>i sp ec. None),
         ''merge'' \<mapsto> (\<lambda>i sp ec. None)]\<rparr>"

definition ex_from :: PlanNode where
  "ex_from = PlanNode ''from0'' True (Procedure ''from'' None False) [] [''map1''] None None None"

definition ex_map :: PlanNode where
  "ex_map =
     PlanNode ''map1'' True (Procedure ''map'' None False) [ex_from] [''filter2''] None None None"

definition ex_filter :: PlanNode where
  "ex_filter =
     PlanNode ''filter2'' True (Procedure ''filter'' None False) [ex_map] [] None None None"

definition ex_plan :: Spec where
  "ex_plan =
     \<lparr>Roots = [ex_filter], Resources = \<lparr>MemoryBytesQuota = 0, ConcurrencyQuota = 0\<rparr>,
      BottomUpOrder = [ex_from, ex_map, ex_filter],
      TopDownOrder = [ex_filter, ex_map, ex_from]\<rparr>"

definition ctx_no_dependencies :: Context where
  "ctx_no_dependencies = \<lparr>ExecutionDependencies = None\<rparr>"

definition ctx_limit :: "int \<Rightarrow> Context" where
  "ctx_limit l =
     \<lparr>ExecutionDependencies = Some \<lparr>DefaultMemoryLimit = 0, ConcurrencyLimit = l\<rparr>\<rparr>"

text \<open>
  A node replicated twice over a source that is not replicated; a plan with two
  \<open>yield\<close>s of the same name; a plan without any node.
\<close>

definition ex_parallel_map :: PlanNode where
  "ex_parallel_map =
     PlanNode ''map1'' True (Procedure ''map'' None False) [ex_from] [] None (Some 2) None"

definition ex_merge :: PlanNode where
  "ex_merge =
     PlanNode ''merge2'' True (Procedure ''merge'' None False) [ex_parallel_map] [] None None
       (Some 2)"

definition ex_yield :: "string \<Rightarrow> string \<Rightarrow> PlanNode" where
  "ex_yield i n = PlanNode i True (Procedure ''yield'' (Some n) False) [ex_map] [] None None None"

definition ex_plan_two_yields :: Spec where
  "ex_plan_two_yields =
     \<lparr>Roots = [ex_yield ''yield2'' ''out'', ex_yield ''yield3'' ''out''],
      Resources = \<lparr>MemoryBytesQuota = 0, ConcurrencyQuota = 0\<rparr>,
      BottomUpOrder = [ex_from, ex_map, ex_yield ''yield2'' ''out'', ex_yield ''yield3'' ''out''],
      TopDownOrder = [ex_yield ''yield2'' ''out'', ex_yield ''yield3'' ''out'', ex_map, ex_from]\<rparr>"

definition ex_plan_empty :: Spec where
  "ex_plan_empty =
     \<lparr>Roots = [], Resources = \<lparr>MemoryBytesQuota = 0, ConcurrencyQuota = 0\<rparr>,
      BottomUpOrder = [], TopDownOrder = []\<rparr>"

definition ex_state :: executionState where
  "ex_state =
     \<lparr>resources = \<lparr>MemoryBytesQuota = 0, ConcurrencyQuota = 1\<rparr>,
      results = [''out'' \<mapsto> newResult ''out''], sources = [], metaChCap = 0,
      transports = [], cancelled = False\<rparr>"

text \<open>
  A visitor that has already visited \<open>from |> map\<close> and holds the given results.
\<close>

definition ex_visitor :: "(string \<rightharpoonup> result) \<Rightarrow> visitor" where
  "ex_visitor rs =
     \<lparr>es = \<lparr>resources = \<lparr>MemoryBytesQuota = 0, ConcurrencyQuota = 0\<rparr>, results = rs,
             sources = [], metaChCap = 0, transports = [], cancelled = False\<rparr>,
      nodes = [ex_map \<mapsto> [Some \<lparr>node_id = datasetIDFromNodeID ''map1'' 0,
                                  node_label = ''map1'', downstream = []\<rparr>]]\<rparr>"

text \<open>Concrete inputs for the examples: a Dataset that accepts every call, two parents.\<close>

definition ds0 :: Dataset where
  "ds0 = \<lparr>calls = [], reply = (\<lambda>c. None)\<rparr>"

definition diff0 :: "nat \<Rightarrow> nat tableBuffer \<Rightarrow> nat tableBuffer \<Rightarrow> error option" where
  "diff0 k a b = None"

definition parentA :: DatasetID where
  "parentA = datasetIDFromNodeID ''want'' 0"

definition parentB :: DatasetID where
  "parentB = datasetIDFromNodeID ''got'' 0"

definition diff_start :: "(nat, nat) DiffTransformation" where
  "diff_start = NewDiffTransformation ds0 parentA parentB"

definition err0 :: error where
  "err0 = Error Internal ''failed'' None"

definition err1 :: error where
  "err1 = Error Unknown ''context canceled'' None"

section \<open>limit: the table transformation and the narrow transformation (universe/limit.go)\<close>

text \<open>
  Modelled from the spec: "the columnar buffer/array representation" is outside of the
  sources. A batch of rows (a \<open>flux.ColReader\<close> for the one, a \<open>table.Chunk\<close> for the
  other) is a list of columns, each an array of values; the length of a batch is the
  length of its columns, 0 when it has none, and the columns of a well-formed batch
  have one length.
\<close>

type_synonym 'a batch = "'a list list"

definition Len :: "'a batch \<Rightarrow> int" where
  "Len b = (case b of [] \<Rightarrow> 0 | c # cs \<Rightarrow> int (length c))"

definition well_formed :: "'a batch \<Rightarrow> bool" where
  "well_formed b = list_all (\<lambda>c. int (length c) = Len b) b"

definition rows :: "'a batch \<Rightarrow> 'a list list" where
  "rows b = map (\<lambda>i. map (\<lambda>c. c ! i) b) [0..<nat (Len b)]"

text \<open>
  Modelled from the spec: \<open>arrow.Slice(arr, i, j)\<close> is the array of the values at
  \<open>i\<close>, ..., \<open>j - 1\<close>; the call panics (\<open>None\<close>) when the range does not lie within
  the array.
\<close>

definition Slice :: "'a list \<Rightarrow> int \<Rightarrow> int \<Rightarrow> 'a list option" where
  "Slice arr i j =
     (if 0 \<le> i \<and> i \<le> j \<and> j \<le> int (length arr)
      then Some (take (nat (j - i)) (drop (nat i) arr))
      else None)"

text \<open>
  \<open>limitState\<close>: the rows still to keep and the rows still to skip (the fields \<open>n\<close> and
  \<open>offset\<close> of the source; the captured variables \<open>n\<close> and \<open>offset\<close> of \<open>limitTable\<close>).
  Both are Go \<open>int\<close>s, modelled as integers: from an offset that is not negative the
  code only subtracts a smaller number from a larger one.
\<close>

record limitState =
  state_n :: int
  state_offset :: int

text \<open>
  A run: the state, and the buffers handed downstream so far (\<open>w.Write\<close> for the table
  transformation, \<open>dataset.Process\<close> for the narrow one). Whether downstream accepts a
  buffer is the parameter \<open>accept\<close>.
\<close>

record 'a limitRun =
  state :: limitState
  emitted :: "'a batch list"

text \<open>The loop over the columns that both functions share.\<close>

definition slice_columns :: "'a batch \<Rightarrow> int \<Rightarrow> int \<Rightarrow> int \<Rightarrow> 'a batch option" where
  "slice_columns cols count start stop =
     those (map (\<lambda>arr. if int (length arr) = count then Some arr else Slice arr start stop)
              cols)"

definition emit ::
  "('a batch \<Rightarrow> error option) \<Rightarrow> 'a batch \<Rightarrow> 'a limitRun \<Rightarrow> (error option \<times> 'a limitRun)" where
  "emit accept vs r =
     (case accept vs of
        Some e \<Rightarrow> (Some e, r)
      | None \<Rightarrow> (None, r\<lparr>emitted := emitted r @ [vs]\<rparr>))"

text \<open>The callback of \<open>tbl.Do\<close> in \<open>limitTable\<close>, for one batch.\<close>

definition limitTable_batch ::
  "('a batch \<Rightarrow> error option) \<Rightarrow> 'a limitRun \<Rightarrow> 'a batch
     \<Rightarrow> (error option \<times> 'a limitRun) option" where
  "limitTable_batch accept r cr =
     (if state_n (state r) \<le> 0 then Some (None, r)
      else
        let l = Len cr
        in if l \<le> state_offset (state r)
           then Some (None, r\<lparr>state := (state r)\<lparr>state_offset := state_offset (state r) - l\<rparr>\<rparr>)
           else
             let start = state_offset (state r);
                 stop = l;
                 count = stop - start;
                 stop = (if count > state_n (state r) then start + state_n (state r) else stop);
                 count = (if count > state_n (state r) then state_n (state r) else count);
                 r' = r\<lparr>state := \<lparr>state_n = state_n (state r) - count, state_offset = 0\<rparr>\<rparr>
             in (case slice_columns cr count start stop of
                   None \<Rightarrow> None
                 | Some vs \<Rightarrow> Some (emit accept vs r')))"

text \<open>\<open>processChunk\<close>, for one chunk.\<close>

definition processChunk ::
  "('a batch \<Rightarrow> error option) \<Rightarrow> 'a limitRun \<Rightarrow> 'a batch
     \<Rightarrow> (error option \<times> 'a limitRun) option" where
  "processChunk accept r chunk =
     (let chunkLen = Len chunk
      in if state_n (state r) \<le> 0 \<or> chunkLen = 0
         then (case those (map (\<lambda>values. if length values = 0 then Some values
                                          else Slice values 0 0) chunk) of
                 None \<Rightarrow> None
               | Some vs \<Rightarrow> Some (emit accept vs r))
         else if chunkLen \<le> state_offset (state r)
         then Some (None, r\<lparr>state := (state r)\<lparr>state_offset := state_offset (state r) - chunkLen\<rparr>\<rparr>)
         else
           let start = state_offset (state r);
               stop = chunkLen;
               count = stop - start;
               stop = (if count > state_n (state r) then start + state_n (state r) else stop);
               count = (if count > state_n (state r) then state_n (state r) else count);
               r' = r\<lparr>state := \<lparr>state_n = state_n (state r) - count, state_offset = 0\<rparr>\<rparr>
           in (case slice_columns chunk count start stop of
                 None \<Rightarrow> None
               | Some vs \<Rightarrow> Some (emit accept vs r')))"

text \<open>
  Modelled from the spec: \<open>tbl.Do\<close> calls the callback on the batches of a table in
  order and stops at the first error; the narrow transformation is called on the chunks
  of a table in order, with the state the previous call returned (the first call finds
  no state and starts from \<open>n\<close> and \<open>offset\<close>).
\<close>

fun Do ::
  "('r \<Rightarrow> 'b \<Rightarrow> (error option \<times> 'r) option) \<Rightarrow> 'r \<Rightarrow> 'b list \<Rightarrow> (error option \<times> 'r) option" where
  "Do f r [] = Some (None, r)"
| "Do f r (b # bs) =
     (case f r b of
        None \<Rightarrow> None
      | Some (Some e, r') \<Rightarrow> Some (Some e, r')
      | Some (None, r') \<Rightarrow> Do f r' bs)"

definition limit_start :: "int \<Rightarrow> int \<Rightarrow> 'a limitRun" where
  "limit_start n offset = \<lparr>state = \<lparr>state_n = n, state_offset = offset\<rparr>, emitted = []\<rparr>"

definition limitTable ::
  "('a batch \<Rightarrow> error option) \<Rightarrow> int \<Rightarrow> int \<Rightarrow> 'a batch list
     \<Rightarrow> (error option \<times> 'a limitRun) option" where
  "limitTable accept n offset tbl = Do (limitTable_batch accept) (limit_start n offset) tbl"

definition narrow_limit ::
  "('a batch \<Rightarrow> error option) \<Rightarrow> int \<Rightarrow> int \<Rightarrow> 'a batch list
     \<Rightarrow> (error option \<times> 'a limitRun) option" where
  "narrow_limit accept n offset chunks = Do (processChunk accept) (limit_start n offset) chunks"

text \<open>What the claim describes: skip \<open>offset\<close> rows, keep the next \<open>n\<close> at most.\<close>

definition limit_rows :: "int \<Rightarrow> int \<Rightarrow> 'a batch list \<Rightarrow> 'a list list" where
  "limit_rows n offset tbl = take (nat n) (drop (nat offset) (concat (map rows tbl)))"

definition accept_all :: "'a batch \<Rightarrow> error option" where
  "accept_all b = None"

definition ex_table :: "nat batch list" where
  "ex_table = [[[1, 2, 3], [10, 20, 30]], [[], []], [[4, 5], [40, 50]]]"

text \<open>
  For the proofs: the state after one well-formed batch and the buffer of kept rows, if
  any, as both functions compute them when the offset is not negative.
\<close>

definition cut_state :: "limitState \<Rightarrow> 'a batch \<Rightarrow> limitState" where
  "cut_state s b =
     (if state_n s \<le> 0 then s
      else if Len b \<le> state_offset s then s\<lparr>state_offset := state_offset s - Len b\<rparr>
      else \<lparr>state_n = state_n s - min (Len b - state_offset s) (state_n s), state_offset = 0\<rparr>)"

definition cut_rows :: "limitState \<Rightarrow> 'a batch \<Rightarrow> 'a batch list" where
  "cut_rows s b =
     (if state_n s \<le> 0 \<or> Len b \<le> state_offset s then []
      else [map (\<lambda>arr. take (nat (min (Len b - state_offset s) (state_n s)))
                         (drop (nat (state_offset s)) arr)) b])"

definition cut_chunks :: "limitState \<Rightarrow> 'a batch \<Rightarrow> 'a batch list" where
  "cut_chunks s b =
     (if state_n s \<le> 0 \<or> Len b = 0 then [map (\<lambda>arr. []) b] else cut_rows s b)"

section \<open>Verified properties\<close>

subsection \<open>Quantile aggregate: every live digest is accounted once\<close>

lemma Close_loop_fields:
  "Compression (Close_loop b k a) = Compression a \<and>
   freeDigests (Close_loop b k a) = freeDigests a \<and>
   freeCap (Close_loop b k a) = freeCap a \<and>
   sum_list (accounted (Close_loop b k a)) = sum_list (accounted a) - b * int k"
  by (induction k arbitrary: a) (simp_all add: Account_def algebra_simps)

lemma filter_update_count:
  "k < length xs \<Longrightarrow>
   length (filter P (xs[k := y])) + (if P (xs ! k) then 1 else 0) =
     length (filter P xs) + (if P y then 1 else 0)"
proof (induction xs arbitrary: k)
  case Nil
  then show ?case by simp
next
  case (Cons x xs)
  show ?case
  proof (cases k)
    case 0
    then show ?thesis by simp
  next
    case (Suc j)
    with Cons.prems have "j < length xs" by simp
    from Cons.IH [OF this] show ?thesis using Suc by (simp split: if_splits)
  qed
qed

lemma open_states_close:
  assumes "k < length (states w)"
  shows "int (length (filter (\<lambda>s. digest s \<noteq> None)
           ((states w)[k := (states w ! k)\<lparr>digest := None\<rparr>]))) =
         int (open_states w) - (if digest (states w ! k) = None then 0 else 1)"
  using filter_update_count [OF assms, of "\<lambda>s. digest s \<noteq> None"
      "(states w ! k)\<lparr>digest := None\<rparr>"]
  by (simp add: open_states_def split: if_splits)

lemma NewFloatAgg_balance:
  assumes "NewFloatAgg bs a = (s, a')"
  shows "Compression a' = Compression a \<and> digest s \<noteq> None \<and>
     sum_list (accounted a') - bs (Compression a) * int (length (freeDigests a')) =
       sum_list (accounted a) - bs (Compression a) * int (length (freeDigests a))
         + bs (Compression a)"
  using assms
proof (cases "freeDigests a")
  case Nil
  then show ?thesis using assms
    by (auto simp: NewFloatAgg_def Account_def algebra_simps)
next
  case (Cons dg dgs)
  then show ?thesis using assms
    by (auto simp: NewFloatAgg_def popFreeDigest_def algebra_simps)
qed

lemma pushFreeDigest_balance:
  "Compression (pushFreeDigest bs dg a) = Compression a \<and>
   sum_list (accounted (pushFreeDigest bs dg a))
       - bs (Compression a) * int (length (freeDigests (pushFreeDigest bs dg a))) =
     sum_list (accounted a) - bs (Compression a) * int (length (freeDigests a))
       - (if dg = None then 0 else bs (Compression a))"
  by (auto simp: pushFreeDigest_def Account_def algebra_simps split: option.splits)

lemma new_agg_balance:
  assumes sa: "NewFloatAgg bs (agg w) = (s, a)"
  shows "balance bs \<lparr>agg = a, states = states w @ [s]\<rparr> = balance bs w \<and>
         Compression a = Compression (agg w)"
  using NewFloatAgg_balance [OF sa]
  by (simp add: balance_def net_accounted_def open_states_def algebra_simps)

lemma state_close_balance:
  assumes k: "k < length (states w)"
  shows "balance bs (agg_call bs w (CallStateClose k)) = balance bs w \<and>
         Compression (agg (agg_call bs w (CallStateClose k))) = Compression (agg w)"
proof -
  let ?a = "pushFreeDigest bs (digest (states w ! k)) (agg w)"
  let ?ss = "(states w)[k := (states w ! k)\<lparr>digest := None\<rparr>]"
  let ?B = "bs (Compression (agg w))"
  have w': "agg_call bs w (CallStateClose k) = \<lparr>agg = ?a, states = ?ss\<rparr>"
    using k by (simp add: agg_call_def QuantileAggState_Close_def)
  have o: "int (open_states \<lparr>agg = ?a, states = ?ss\<rparr>) =
             int (open_states w) - (if digest (states w ! k) = None then 0 else 1)"
    using open_states_close [OF k] by (simp add: open_states_def)
  show ?thesis
  proof (cases "digest (states w ! k)")
    case None
    with o have "open_states \<lparr>agg = ?a, states = ?ss\<rparr> = open_states w" by simp
    moreover from None have "?a = agg w" by (simp add: pushFreeDigest_def)
    ultimately show ?thesis
      unfolding w' balance_def net_accounted_def by simp
  next
    case (Some dg)
    with o have o': "int (open_states \<lparr>agg = ?a, states = ?ss\<rparr>) = int (open_states w) - 1"
      by simp
    from pushFreeDigest_balance [of bs "digest (states w ! k)" "agg w"] Some
    have c: "Compression ?a = Compression (agg w)"
      and p: "sum_list (accounted ?a) - ?B * int (length (freeDigests ?a)) =
        sum_list (accounted (agg w)) - ?B * int (length (freeDigests (agg w))) - ?B"
      by simp_all
    have "sum_list (accounted ?a)
            - ?B * (int (length (freeDigests ?a)) + int (open_states \<lparr>agg = ?a, states = ?ss\<rparr>)) =
          (sum_list (accounted ?a) - ?B * int (length (freeDigests ?a)))
            - ?B * int (open_states \<lparr>agg = ?a, states = ?ss\<rparr>)"
      by (simp add: algebra_simps)
    also have "\<dots> = (sum_list (accounted (agg w)) - ?B * int (length (freeDigests (agg w))) - ?B)
            - ?B * (int (open_states w) - 1)"
      by (simp only: p o')
    also have "\<dots> = sum_list (accounted (agg w))
            - ?B * (int (length (freeDigests (agg w))) + int (open_states w))"
      by (simp add: algebra_simps)
    finally show ?thesis
      unfolding w' balance_def net_accounted_def by (simp add: c)
  qed
qed

lemma agg_call_balance:
  "balance bs (agg_call bs w c) = balance bs w \<and>
   Compression (agg (agg_call bs w c)) = Compression (agg w)"
proof (cases c)
  case CallNewFloatAgg
  obtain s a where sa: "NewFloatAgg bs (agg w) = (s, a)" by (cases "NewFloatAgg bs (agg w)")
  from new_agg_balance [OF sa] show ?thesis
    using sa CallNewFloatAgg by (simp add: agg_call_def)
next
  case CallNewIntAgg
  obtain s a where sa: "NewFloatAgg bs (agg w) = (s, a)" by (cases "NewFloatAgg bs (agg w)")
  from new_agg_balance [OF sa] show ?thesis
    using sa CallNewIntAgg by (simp add: agg_call_def NewIntAgg_def)
next
  case CallNewUIntAgg
  obtain s a where sa: "NewFloatAgg bs (agg w) = (s, a)" by (cases "NewFloatAgg bs (agg w)")
  from new_agg_balance [OF sa] show ?thesis
    using sa CallNewUIntAgg by (simp add: agg_call_def NewUIntAgg_def)
next
  case (CallStateClose k)
  show ?thesis
  proof (cases "k < length (states w)")
    case True
    from state_close_balance [OF True] show ?thesis using CallStateClose by simp
  next
    case False
    then show ?thesis using CallStateClose by (simp add: agg_call_def)
  qed
next
  case CallAggClose
  from Close_loop_fields [of "bs (Compression (agg w))" "length (freeDigests (agg w))" "agg w"]
  show ?thesis
    using CallAggClose
    by (simp add: agg_call_def QuantileAgg_Close_def balance_def net_accounted_def
        open_states_def algebra_simps)
qed

lemma agg_run_balance:
  "balance bs (agg_run bs w cs) = balance bs w \<and>
   Compression (agg (agg_run bs w cs)) = Compression (agg w)"
  unfolding agg_run_def
  by (induction cs arbitrary: w) (simp_all add: agg_call_balance)

lemma agg_close_free: "freeDigests (agg (agg_call bs w CallAggClose)) = []"
  by (simp add: agg_call_def QuantileAgg_Close_def)

text \<open>
  Claim C9, as the code has it. The claim says that any sequence of \<open>NewFloatAgg\<close> and
  state \<open>Close\<close> calls followed by \<open>QuantileAgg.Close\<close> leaves a net accounting of
  zero. The accounting is symmetric per digest: at every moment the net bytes accounted
  are one digest size for each digest on the free list or held by an open state; after
  \<open>QuantileAgg.Close\<close> they are one digest size for each state that was never closed,
  and zero when every state handed out has been closed.
\<close>

theorem quantile_digest_accounting:
  "net_accounted (agg_run bs (agg_start q c n) cs) =
     bs c * (int (length (freeDigests (agg (agg_run bs (agg_start q c n) cs))))
             + int (open_states (agg_run bs (agg_start q c n) cs))) \<and>
   net_accounted (agg_run bs (agg_start q c n) (cs @ [CallAggClose])) =
     bs c * int (open_states (agg_run bs (agg_start q c n) (cs @ [CallAggClose]))) \<and>
   (open_states (agg_run bs (agg_start q c n) (cs @ [CallAggClose])) = 0 \<longrightarrow>
      net_accounted (agg_run bs (agg_start q c n) (cs @ [CallAggClose])) = 0)"
proof -
  have z: "balance bs (agg_start q c n) = 0"
    by (simp add: balance_def agg_start_def NewQuantileAgg_def net_accounted_def open_states_def)
  have inv: "net_accounted (agg_run bs (agg_start q c n) xs) =
     bs c * (int (length (freeDigests (agg (agg_run bs (agg_start q c n) xs))))
             + int (open_states (agg_run bs (agg_start q c n) xs)))" for xs
    using agg_run_balance [of bs "agg_start q c n" xs] z
    by (simp add: balance_def agg_start_def NewQuantileAgg_def)
  have f: "freeDigests (agg (agg_run bs (agg_start q c n) (cs @ [CallAggClose]))) = []"
    by (simp add: agg_run_def agg_close_free)
  from inv [of cs] inv [of "cs @ [CallAggClose]"] f show ?thesis by simp
qed

theorem quantile_digest_accounting_witness:
  "open_states (agg_run (\<lambda>c. c) (agg_start (0::int) 8 1)
       ([CallNewFloatAgg, CallNewFloatAgg, CallStateClose 0, CallStateClose 1] @ [CallAggClose])) = 0 \<and>
   net_accounted (agg_run (\<lambda>c. c) (agg_start (0::int) 8 1)
       ([CallNewFloatAgg, CallNewFloatAgg, CallStateClose 0, CallStateClose 1] @ [CallAggClose])) = 0"
proof -
  have h: "open_states (agg_run (\<lambda>c. c) (agg_start (0::int) 8 1)
       ([CallNewFloatAgg, CallNewFloatAgg, CallStateClose 0, CallStateClose 1] @ [CallAggClose])) = 0"
    by (simp add: agg_run_def agg_call_def agg_start_def NewQuantileAgg_def NewFloatAgg_def
        QuantileAgg_Close_def QuantileAggState_Close_def pushFreeDigest_def popFreeDigest_def
        Account_def open_states_def NewWithCompression_def Reset_def)
  from quantile_digest_accounting [of "\<lambda>c. c" 0 8 1
      "[CallNewFloatAgg, CallNewFloatAgg, CallStateClose 0, CallStateClose 1]"] h
  show ?thesis by blast
qed

text \<open>
  One state is created and never closed: after \<open>QuantileAgg.Close\<close> the bytes of its
  digest are still accounted.
\<close>

theorem quantile_unclosed_state_counterexample:
  "net_accounted (agg_run (\<lambda>c. c) (agg_start (0::int) 8 1) [CallNewFloatAgg, CallAggClose]) \<noteq> 0"
  by (simp add: agg_run_def agg_call_def agg_start_def NewQuantileAgg_def NewFloatAgg_def
      QuantileAgg_Close_def Account_def net_accounted_def NewWithCompression_def)

subsection \<open>The diff transformation: watermarks\<close>

lemma sint_le_MaxInt64: "sint (x::Time) \<le> sint MaxInt64"
  using sint_lt [of x] by (simp add: MaxInt64_def)

lemma not_MaxInt64_sless: "\<not> MaxInt64 <s (x::Time)"
  using sint_le_MaxInt64 [of x] by (simp add: word_sless_alt)

lemma watermark_fold_sint:
  "sint (foldl (\<lambda>mn (k, state). if mark state <s mn then mark state else mn) m0 ps) =
     fold min (map (\<lambda>(k, s). sint (mark s)) ps) (sint m0)"
proof (induction ps arbitrary: m0)
  case Nil
  then show ?case by simp
next
  case (Cons a ps)
  obtain k s where a: "a = (k, s)" by (cases a)
  let ?m1 = "if mark s <s m0 then mark s else m0"
  have s1: "sint ?m1 = min (sint (mark s)) (sint m0)"
    by (simp add: word_sless_alt min_def)
  have "sint (foldl (\<lambda>mn (k, state). if mark state <s mn then mark state else mn) m0 (a # ps)) =
        fold min (map (\<lambda>(k, s). sint (mark s)) ps) (sint ?m1)"
    unfolding a by (simp only: foldl_Cons prod.case Cons.IH)
  then show ?case by (simp only: s1 a list.map prod.case fold_simps)
qed

lemma watermark_min_Min:
  assumes "ps \<noteq> []"
  shows "sint (watermark_min ps) = Min ((\<lambda>(k, s). sint (mark s)) ` set ps)"
proof -
  let ?xs = "map (\<lambda>(k, s). sint (mark s)) ps"
  have "sint (watermark_min ps) = fold min ?xs (sint MaxInt64)"
    by (simp add: watermark_min_def watermark_fold_sint)
  also have "\<dots> = Min (set (sint MaxInt64 # ?xs))"
    by (simp only: Min.set_eq_fold)
  also have "\<dots> = min (sint MaxInt64) (Min (set ?xs))"
    using assms by simp
  also have "\<dots> = Min (set ?xs)"
  proof -
    from assms obtain a where "a \<in> set ?xs" by (cases ps) auto
    then have "Min (set ?xs) \<le> a" by simp
    moreover have "a \<le> sint MaxInt64"
      using \<open>a \<in> set ?xs\<close> sint_le_MaxInt64 by auto
    ultimately show ?thesis by simp
  qed
  finally show ?thesis by simp
qed

lemma update_nonempty: "AList.update k v al \<noteq> []"
  by (cases al) auto

lemma update_keys: "map_of al k = Some v0 \<Longrightarrow> map fst (AList.update k v al) = map fst al"
  by (induction al) (auto split: if_splits)

lemma UpdateWatermark_general:
  assumes p: "map_of (parentState t) p = Some st"
  shows "\<exists>r t' w. UpdateWatermark t p m = Some (r, t') \<and>
        calls (d t') = calls (d t) @ [CallUpdateWatermark w] \<and>
        map_of (parentState t') = (map_of (parentState t))(p \<mapsto> st\<lparr>mark := m\<rparr>) \<and>
        map fst (parentState t') = map fst (parentState t) \<and>
        sint w = Min ((\<lambda>(k, s). sint (mark s)) ` set (parentState t')) \<and>
        (\<forall>(k, s) \<in> set (parentState t'). sint w \<le> sint (mark s))"
proof -
  let ?ps = "AList.update p (st\<lparr>mark := m\<rparr>) (parentState t)"
  let ?w = "watermark_min ?ps"
  let ?t = "t\<lparr>parentState := ?ps,
              d := (d t)\<lparr>calls := calls (d t) @ [CallUpdateWatermark ?w]\<rparr>\<rparr>"
  have u: "UpdateWatermark t p m = Some (reply (d t) (CallUpdateWatermark ?w), ?t)"
    using p by (simp add: UpdateWatermark_def Dataset_UpdateWatermark_def Let_def)
  have mn: "sint ?w = Min ((\<lambda>(k, s). sint (mark s)) ` set ?ps)"
    by (rule watermark_min_Min) (rule update_nonempty)
  have le: "\<forall>(k, s) \<in> set ?ps. sint ?w \<le> sint (mark s)"
    unfolding mn by (auto intro!: Min_le)
  show ?thesis
    using u mn le update_keys [OF p] by (simp add: update_conv')
qed

lemma UpdateWatermark_two_parents:
  assumes "want \<noteq> got" "t2 <s t1"
  shows "\<exists>r1 ta r2 tb w1.
          UpdateWatermark (NewDiffTransformation ds want got) want t1 = Some (r1, ta) \<and>
          UpdateWatermark ta got t2 = Some (r2, tb) \<and>
          calls (d tb) = calls ds @ [CallUpdateWatermark w1, CallUpdateWatermark t2]"
  using assms not_MaxInt64_sless [of t1]
  by (auto simp: UpdateWatermark_def NewDiffTransformation_def Dataset_UpdateWatermark_def
      watermark_min_def new_diffParentState_def Let_def)

text \<open>
  Claim C4. For a parent \<open>p\<close> of the diff transformation, \<open>UpdateWatermark p m\<close> stores
  \<open>m\<close> as the mark of \<open>p\<close>, leaves the marks of the other parents as they were, and
  forwards to the Dataset exactly one watermark: the minimum (as signed 64-bit times) of
  the marks now stored for all parents, which is therefore no later than the last known
  mark of any other parent. With two distinct parents reporting \<open>t1\<close> then \<open>t2\<close>,
  \<open>t2 < t1\<close>, the watermark forwarded after the second update is \<open>t2\<close>.
\<close>

theorem diff_watermark_merge:
  "(map_of (parentState t) p = Some st \<longrightarrow>
     (\<exists>r t' w. UpdateWatermark t p m = Some (r, t') \<and>
        calls (d t') = calls (d t) @ [CallUpdateWatermark w] \<and>
        map_of (parentState t') = (map_of (parentState t))(p \<mapsto> st\<lparr>mark := m\<rparr>) \<and>
        map fst (parentState t') = map fst (parentState t) \<and>
        sint w = Min ((\<lambda>(k, s). sint (mark s)) ` set (parentState t')) \<and>
        (\<forall>(k, s) \<in> set (parentState t'). sint w \<le> sint (mark s)))) \<and>
   (want \<noteq> got \<and> t2 <s t1 \<longrightarrow>
     (\<exists>r1 ta r2 tb w1.
        UpdateWatermark (NewDiffTransformation ds want got) want t1 = Some (r1, ta) \<and>
        UpdateWatermark ta got t2 = Some (r2, tb) \<and>
        calls (d tb) = calls ds @ [CallUpdateWatermark w1, CallUpdateWatermark t2]))"
  using UpdateWatermark_general [of t p st m] UpdateWatermark_two_parents [of want got t2 t1 ds]
  by blast

theorem diff_watermark_merge_witness:
  "map_of (parentState diff_start) parentA = Some new_diffParentState \<and>
   parentA \<noteq> parentB \<and> (3 :: Time) <s 7 \<and>
   (\<exists>r t' w. UpdateWatermark diff_start parentA 5 = Some (r, t') \<and>
      calls (d t') = calls (d diff_start) @ [CallUpdateWatermark w] \<and>
      sint w = Min ((\<lambda>(k, s). sint (mark s)) ` set (parentState t'))) \<and>
   (\<exists>r1 ta r2 tb w1.
      UpdateWatermark (NewDiffTransformation ds0 parentA parentB :: (nat, nat) DiffTransformation)
        parentA 7 = Some (r1, ta) \<and>
      UpdateWatermark ta parentB 3 = Some (r2, tb) \<and>
      calls (d tb) = calls ds0 @ [CallUpdateWatermark w1, CallUpdateWatermark 3])"
proof -
  have h1: "map_of (parentState diff_start) parentA = Some new_diffParentState"
    by (simp add: diff_start_def NewDiffTransformation_def parentA_def parentB_def)
  have h2: "parentA \<noteq> parentB"
    by (simp add: parentA_def parentB_def)
  have h3: "(3 :: Time) <s 7"
    by (simp add: word_sless_alt)
  from diff_watermark_merge [of diff_start parentA new_diffParentState 5 parentA parentB 3 7 ds0]
    h1 h2 h3
  show ?thesis by blast
qed

subsection \<open>The diff transformation: finish\<close>

lemma all_finished_fold:
  "foldl (\<lambda>fin (k, state). fin \<and> finished state) b ps \<longleftrightarrow>
     b \<and> (\<forall>(k, s) \<in> set ps. finished s)"
  by (induction ps arbitrary: b) auto

lemma all_finished_iff: "all_finished ps \<longleftrightarrow> (\<forall>(k, s) \<in> set ps. finished s)"
  unfolding all_finished_def by (simp only: all_finished_fold simp_thms)

lemma Finish_general:
  assumes p: "map_of (parentState t) p = Some st"
  shows "\<exists>t'. Finish diff t p err = Some t' \<and>
       map_of (parentState t') = (map_of (parentState t))(p \<mapsto> st\<lparr>finished := True\<rparr>) \<and>
       map fst (parentState t') = map fst (parentState t) \<and>
       (err = None \<and> \<not> (\<forall>(k, s) \<in> set (parentState t'). finished s)
          \<longrightarrow> calls (d t') = calls (d t)) \<and>
       (err = None \<and> (\<forall>(k, s) \<in> set (parentState t'). finished s)
          \<longrightarrow> calls (d t') = calls (d t) @ [CallFinish (flush diff t)]) \<and>
       (err \<noteq> None \<longrightarrow> (\<exists>rest. calls (d t') = calls (d t) @ CallFinish err # rest))"
  using p update_keys [OF p, of "st\<lparr>finished := True\<rparr>"]
  by (auto simp: Finish_def Let_def Dataset_Finish_def all_finished_iff update_conv')

lemma Finish_scenario:
  assumes "want \<noteq> got"
  shows "\<exists>ta tb rest.
          Finish diff (NewDiffTransformation ds want got) want None = Some ta \<and>
          calls (d ta) = calls ds \<and>
          Finish diff ta got (Some e) = Some tb \<and>
          calls (d tb) = calls ds @ CallFinish (Some e) # rest"
  using assms
  by (auto simp: Finish_def NewDiffTransformation_def Dataset_Finish_def all_finished_def
      new_diffParentState_def Let_def)

text \<open>
  Claim C2, as the code has it. \<open>Finish p err\<close> marks the parent \<open>p\<close> as finished. With
  a nil error it forwards nothing to the Dataset while another parent is unfinished, and
  exactly one \<open>Finish\<close>, carrying the result of flushing the retained tables, when
  \<open>p\<close> was the last one. With a non-nil error it forwards \<open>Finish err\<close> at once, whether
  or not the other parent has finished. For two distinct parents, after
  \<open>Finish parentA nil\<close> nothing has been forwarded, and after \<open>Finish parentB err\<close> the
  first \<open>Finish\<close> the Dataset has received carries \<open>err\<close>.
\<close>

theorem diff_finish_forwarding:
  "(map_of (parentState t) p = Some st \<longrightarrow>
     (\<exists>t'. Finish diff t p err = Some t' \<and>
       map_of (parentState t') = (map_of (parentState t))(p \<mapsto> st\<lparr>finished := True\<rparr>) \<and>
       map fst (parentState t') = map fst (parentState t) \<and>
       (err = None \<and> \<not> (\<forall>(k, s) \<in> set (parentState t'). finished s)
          \<longrightarrow> calls (d t') = calls (d t)) \<and>
       (err = None \<and> (\<forall>(k, s) \<in> set (parentState t'). finished s)
          \<longrightarrow> calls (d t') = calls (d t) @ [CallFinish (flush diff t)]) \<and>
       (err \<noteq> None \<longrightarrow> (\<exists>rest. calls (d t') = calls (d t) @ CallFinish err # rest)))) \<and>
   (want \<noteq> got \<longrightarrow>
     (\<exists>ta tb rest.
        Finish diff (NewDiffTransformation ds want got) want None = Some ta \<and>
        calls (d ta) = calls ds \<and>
        Finish diff ta got (Some e) = Some tb \<and>
        calls (d tb) = calls ds @ CallFinish (Some e) # rest))"
  using Finish_general [of t p st diff err] Finish_scenario [of want got diff ds e]
  by blast

theorem diff_finish_forwarding_witness:
  "map_of (parentState diff_start) parentA = Some new_diffParentState \<and>
   parentA \<noteq> parentB \<and>
   (\<exists>t'. Finish diff0 diff_start parentA None = Some t' \<and>
      \<not> (\<forall>(k, s) \<in> set (parentState t'). finished s) \<and>
      calls (d t') = calls (d diff_start)) \<and>
   (\<exists>ta tb rest.
      Finish diff0 (NewDiffTransformation ds0 parentA parentB) parentA None = Some ta \<and>
      calls (d ta) = calls ds0 \<and>
      Finish diff0 ta parentB (Some err0) = Some tb \<and>
      calls (d tb) = calls ds0 @ CallFinish (Some err0) # rest)"
proof -
  have h1: "map_of (parentState diff_start) parentA = Some new_diffParentState"
    by (simp add: diff_start_def NewDiffTransformation_def parentA_def parentB_def)
  have h2: "parentA \<noteq> parentB"
    by (simp add: parentA_def parentB_def)
  have h3: "\<exists>t'. Finish diff0 diff_start parentA None = Some t' \<and>
      \<not> (\<forall>(k, s) \<in> set (parentState t'). finished s)"
    by (simp add: Finish_def diff_start_def NewDiffTransformation_def parentA_def parentB_def
        all_finished_def new_diffParentState_def Let_def)
  from diff_finish_forwarding
         [of diff_start parentA new_diffParentState diff0 None parentA parentB ds0 err0]
    h1 h2 h3
  show ?thesis by (metis option.inject)
qed

text \<open>
  The scenario of the claim forwards two \<open>Finish\<close> calls, not one; and a parent that
  fails first has its error forwarded while the other parent is still running.
\<close>

theorem diff_finish_counterexample:
  "map_option (calls \<circ> d)
     (Option.bind (Finish diff0 diff_start parentA None)
        (\<lambda>ta. Finish diff0 ta parentB (Some err0))) =
     Some [CallFinish (Some err0), CallFinish None] \<and>
   map_option (\<lambda>t. (calls (d t), map (finished \<circ> snd) (parentState t)))
     (Finish diff0 diff_start parentA (Some err0)) =
     Some ([CallFinish (Some err0)], [True, False])"
  by (simp add: Finish_def diff_start_def NewDiffTransformation_def Dataset_Finish_def
      all_finished_def new_diffParentState_def Let_def ds0_def flush_def parentA_def
      parentB_def)

subsection \<open>Defaulting of the concurrency quota\<close>

lemma TopDownWalk_count_sum:
  assumes "\<forall>n \<in> set ns. Predecessors n \<noteq> [] \<longrightarrow> isPhysical n"
  shows "TopDownWalk_count ns q = Some (q + internal_factor_sum ns)"
  using assms
proof (induction ns arbitrary: q)
  case Nil
  then show ?case by (simp add: internal_factor_sum_def)
next
  case (Cons n ns)
  then have ih: "TopDownWalk_count ns q' = Some (q' + internal_factor_sum ns)" for q'
    by simp
  show ?case
  proof (cases "Predecessors n = []")
    case True
    then show ?thesis by (simp add: count_node_def ih internal_factor_sum_def)
  next
    case False
    with Cons.prems have "isPhysical n" by simp
    with False show ?thesis
      by (simp add: count_node_def ih internal_factor_sum_def node_copies_def)
  qed
qed

lemma choose_roots:
  assumes "ConcurrencyQuota (resources s) = 0"
    and "ExecutionDependencies ctx = Some opts" and "ConcurrencyLimit opts \<le> 0"
  shows "\<exists>s'. chooseDefaultResources ctx p s = Some s' \<and>
           ConcurrencyQuota (resources s') = int (length (Roots p))"
  using assms by (simp add: chooseDefaultResources_def getResourceLimits_def Let_def)

lemma choose_limit:
  assumes q0: "ConcurrencyQuota (resources s) = 0"
    and phys: "\<forall>n \<in> set (TopDownOrder p). Predecessors n \<noteq> [] \<longrightarrow> isPhysical n"
    and L: "snd (getResourceLimits ctx) = L" "L > 0"
  shows "\<exists>s'. chooseDefaultResources ctx p s = Some s' \<and>
           ConcurrencyQuota (resources s') =
             (if internal_factor_sum (TopDownOrder p) > L then L
              else if internal_factor_sum (TopDownOrder p) = 0 then 1
              else internal_factor_sum (TopDownOrder p))"
proof -
  obtain m where g: "getResourceLimits ctx = (m, L)"
    using L(1) by (cases "getResourceLimits ctx") simp
  show ?thesis
    using q0 L(2) TopDownWalk_count_sum [OF phys, of 0]
    by (simp add: chooseDefaultResources_def g Let_def)
qed

text \<open>
  Claim C1, as the code has it. Let the plan's quota be unset (0). When the context
  carries execution options whose \<open>ConcurrencyLimit\<close> is not positive, the resolved
  quota is the number of roots. When the limit \<open>L\<close> is positive, the resolved quota is
  the sum \<open>S\<close> of the parallel-run factors of the nodes with at least one predecessor,
  replaced by \<open>L\<close> when it exceeds \<open>L\<close> and by 1 when it is 0 (so, for factors that are
  not negative, \<open>max 1 (min L S)\<close>). A context without execution dependencies counts as
  the limit \<open>math.MaxInt64\<close>, not as no limit: the quota is then the sum, not the number
  of roots.
\<close>

theorem concurrency_quota_defaulting:
  "ConcurrencyQuota (resources s) = 0 \<longrightarrow>
     (ExecutionDependencies ctx = Some opts \<and> ConcurrencyLimit opts \<le> 0 \<longrightarrow>
        (\<exists>s'. chooseDefaultResources ctx p s = Some s' \<and>
           ConcurrencyQuota (resources s') = int (length (Roots p)))) \<and>
     ((\<forall>n \<in> set (TopDownOrder p). Predecessors n \<noteq> [] \<longrightarrow> isPhysical n) \<and>
      (ExecutionDependencies ctx = Some opts \<and> ConcurrencyLimit opts = L \<or>
       ExecutionDependencies ctx = None \<and> L = math_MaxInt64) \<and> L > 0 \<longrightarrow>
        (\<exists>s'. chooseDefaultResources ctx p s = Some s' \<and>
           ConcurrencyQuota (resources s') =
             (if internal_factor_sum (TopDownOrder p) > L then L
              else if internal_factor_sum (TopDownOrder p) = 0 then 1
              else internal_factor_sum (TopDownOrder p)) \<and>
           (0 \<le> internal_factor_sum (TopDownOrder p) \<longrightarrow>
              ConcurrencyQuota (resources s') =
                max 1 (min L (internal_factor_sum (TopDownOrder p))))))"
proof (intro impI conjI)
  assume "ConcurrencyQuota (resources s) = 0"
    and "ExecutionDependencies ctx = Some opts \<and> ConcurrencyLimit opts \<le> 0"
  then show "\<exists>s'. chooseDefaultResources ctx p s = Some s' \<and>
           ConcurrencyQuota (resources s') = int (length (Roots p))"
    using choose_roots by blast
next
  assume q0: "ConcurrencyQuota (resources s) = 0"
    and h: "(\<forall>n \<in> set (TopDownOrder p). Predecessors n \<noteq> [] \<longrightarrow> isPhysical n) \<and>
      (ExecutionDependencies ctx = Some opts \<and> ConcurrencyLimit opts = L \<or>
       ExecutionDependencies ctx = None \<and> L = math_MaxInt64) \<and> L > 0"
  from h have "snd (getResourceLimits ctx) = L"
    by (auto simp: getResourceLimits_def)
  from choose_limit [OF q0 _ this] h
  obtain s' where s': "chooseDefaultResources ctx p s = Some s'"
    "ConcurrencyQuota (resources s') =
             (if internal_factor_sum (TopDownOrder p) > L then L
              else if internal_factor_sum (TopDownOrder p) = 0 then 1
              else internal_factor_sum (TopDownOrder p))"
    by blast
  moreover from s'(2) h have "0 \<le> internal_factor_sum (TopDownOrder p) \<longrightarrow>
      ConcurrencyQuota (resources s') = max 1 (min L (internal_factor_sum (TopDownOrder p)))"
    by (auto simp: max_def min_def)
  ultimately show "\<exists>s'. chooseDefaultResources ctx p s = Some s' \<and>
           ConcurrencyQuota (resources s') =
             (if internal_factor_sum (TopDownOrder p) > L then L
              else if internal_factor_sum (TopDownOrder p) = 0 then 1
              else internal_factor_sum (TopDownOrder p)) \<and>
           (0 \<le> internal_factor_sum (TopDownOrder p) \<longrightarrow>
              ConcurrencyQuota (resources s') =
                max 1 (min L (internal_factor_sum (TopDownOrder p))))"
    by blast
qed

theorem concurrency_quota_defaulting_witness:
  "ConcurrencyQuota (resources (es (new_visitor ex_plan))) = 0 \<and>
   list_all isPhysical (TopDownOrder ex_plan) \<and>
   internal_factor_sum (TopDownOrder ex_plan) = 2 \<and>
   (\<exists>s'. chooseDefaultResources (ctx_limit 0) ex_plan (es (new_visitor ex_plan)) = Some s' \<and>
      ConcurrencyQuota (resources s') = 1) \<and>
   (\<exists>s'. chooseDefaultResources (ctx_limit 1) ex_plan (es (new_visitor ex_plan)) = Some s' \<and>
      ConcurrencyQuota (resources s') = 1) \<and>
   (\<exists>s'. chooseDefaultResources (ctx_limit 5) ex_plan (es (new_visitor ex_plan)) = Some s' \<and>
      ConcurrencyQuota (resources s') = 2)"
proof -
  have q0: "ConcurrencyQuota (resources (es (new_visitor ex_plan))) = 0"
    by (simp add: new_visitor_def ex_plan_def)
  have ph: "\<forall>n \<in> set (TopDownOrder ex_plan). Predecessors n \<noteq> [] \<longrightarrow> isPhysical n"
    by (simp add: ex_plan_def ex_filter_def ex_map_def ex_from_def)
  have sm: "internal_factor_sum (TopDownOrder ex_plan) = 2"
    by (simp add: internal_factor_sum_def ex_plan_def ex_filter_def ex_map_def ex_from_def
        node_copies_def)
  have rt: "length (Roots ex_plan) = 1"
    by (simp add: ex_plan_def)
  have d: "ExecutionDependencies (ctx_limit l) =
             Some \<lparr>DefaultMemoryLimit = 0, ConcurrencyLimit = l\<rparr>" for l
    by (simp add: ctx_limit_def)
  from concurrency_quota_defaulting
         [of "es (new_visitor ex_plan)" "ctx_limit 0"
             "\<lparr>DefaultMemoryLimit = 0, ConcurrencyLimit = 0\<rparr>" ex_plan 1] q0 d [of 0] rt
  have a: "\<exists>s'. chooseDefaultResources (ctx_limit 0) ex_plan (es (new_visitor ex_plan)) = Some s' \<and>
      ConcurrencyQuota (resources s') = 1"
    by simp
  from concurrency_quota_defaulting
         [of "es (new_visitor ex_plan)" "ctx_limit 1"
             "\<lparr>DefaultMemoryLimit = 0, ConcurrencyLimit = 1\<rparr>" ex_plan 1] q0 ph d [of 1] sm
  have b: "\<exists>s'. chooseDefaultResources (ctx_limit 1) ex_plan (es (new_visitor ex_plan)) = Some s' \<and>
      ConcurrencyQuota (resources s') = 1"
    by simp
  from concurrency_quota_defaulting
         [of "es (new_visitor ex_plan)" "ctx_limit 5"
             "\<lparr>DefaultMemoryLimit = 0, ConcurrencyLimit = 5\<rparr>" ex_plan 5] q0 ph d [of 5] sm
  have c: "\<exists>s'. chooseDefaultResources (ctx_limit 5) ex_plan (es (new_visitor ex_plan)) = Some s' \<and>
      ConcurrencyQuota (resources s') = 2"
    by simp
  have pa: "list_all isPhysical (TopDownOrder ex_plan)"
    by (simp add: ex_plan_def ex_filter_def ex_map_def ex_from_def)
  from q0 pa sm a b c show ?thesis by blast
qed

text \<open>
  No execution dependencies, so no ambient limit is configured; one root, two internal
  nodes. The resolved quota is 2, not the number of roots.
\<close>

theorem concurrency_quota_no_dependencies_counterexample:
  "ExecutionDependencies ctx_no_dependencies = None \<and>
   ConcurrencyQuota (resources (es (new_visitor ex_plan))) = 0 \<and>
   length (Roots ex_plan) = 1 \<and>
   map_option (ConcurrencyQuota \<circ> resources)
     (chooseDefaultResources ctx_no_dependencies ex_plan (es (new_visitor ex_plan))) = Some 2"
  by (simp add: chooseDefaultResources_def getResourceLimits_def ctx_no_dependencies_def
      new_visitor_def ex_plan_def ex_filter_def ex_map_def ex_from_def count_node_def
      math_MaxInt64_def Let_def)

subsection \<open>Replica wiring\<close>

lemma fold_write_row:
  "b + F \<le> length ps \<Longrightarrow>
   fold (\<lambda>j ps. ps[b + j := g j]) [0..<F] ps = take b ps @ map g [0..<F] @ drop (b + F) ps"
proof (induction F)
  case 0
  then show ?case by simp
next
  case (Suc F)
  then have ih: "fold (\<lambda>j ps. ps[b + j := g j]) [0..<F] ps =
      take b ps @ map g [0..<F] @ drop (b + F) ps"
    by simp
  from Suc.prems have lt: "b + F < length ps" by simp
  have d: "drop (b + F) ps = ps ! (b + F) # drop (Suc (b + F)) ps"
    using lt by (simp add: Cons_nth_drop_Suc)
  have "fold (\<lambda>j ps. ps[b + j := g j]) [0..<Suc F] ps =
        (take b ps @ map g [0..<F] @ drop (b + F) ps)[b + F := g F]"
    by (simp add: ih)
  also have "\<dots> = take b ps @ map g [0..<F] @ (drop (b + F) ps)[0 := g F]"
    using lt by (simp add: list_update_append)
  also have "\<dots> = take b ps @ map g [0..<Suc F] @ drop (b + Suc F) ps"
    by (simp add: d)
  finally show ?case .
qed

lemma fill_parents_from:
  "(k + length preds) * F \<le> length ps \<Longrightarrow>
   fold (\<lambda>(pi, pred) ps.
           fold (\<lambda>j ps. ps[pi * F + j := datasetIDFromNodeID (ID pred) (i + j)]) [0..<F] ps)
     (enumerate k preds) ps =
   take (k * F) ps
     @ concat (map (\<lambda>pred. map (\<lambda>j. datasetIDFromNodeID (ID pred) (i + j)) [0..<F]) preds)
     @ drop ((k + length preds) * F) ps"
proof (induction preds arbitrary: k ps)
  case Nil
  then show ?case by simp
next
  case (Cons p preds)
  let ?row = "map (\<lambda>j. datasetIDFromNodeID (ID p) (i + j)) [0..<F]"
  let ?ps1 = "take (k * F) ps @ ?row @ drop (k * F + F) ps"
  from Cons.prems have len: "k * F + F \<le> length ps"
    by (simp add: algebra_simps)
  have step: "fold (\<lambda>j ps. ps[k * F + j := datasetIDFromNodeID (ID p) (i + j)]) [0..<F] ps = ?ps1"
    using fold_write_row [OF len] .
  have l1: "length ?ps1 = length ps" using len by simp
  have pre: "(Suc k + length preds) * F \<le> length ?ps1"
    using Cons.prems l1 by simp
  have t: "take (Suc k * F) ?ps1 = take (k * F) ps @ ?row"
    using len by (simp add: algebra_simps)
  have dr: "drop ((Suc k + length preds) * F) ?ps1 = drop ((k + length (p # preds)) * F) ps"
    using len by (simp add: algebra_simps)
  let ?f = "\<lambda>(pi, pred) ps.
           fold (\<lambda>j ps. ps[pi * F + j := datasetIDFromNodeID (ID pred) (i + j)]) [0..<F] ps"
  let ?rows = "concat (map (\<lambda>pred. map (\<lambda>j. datasetIDFromNodeID (ID pred) (i + j)) [0..<F]) preds)"
  have "fold ?f (enumerate k (p # preds)) ps = fold ?f (enumerate (Suc k) preds) ?ps1"
    by (simp only: enumerate_simps fold_Cons comp_apply prod.case step)
  also have "\<dots> = take (Suc k * F) ?ps1 @ ?rows @ drop ((Suc k + length preds) * F) ?ps1"
    by (rule Cons.IH [OF pre])
  also have "\<dots> = (take (k * F) ps @ ?row) @ ?rows @ drop ((k + length (p # preds)) * F) ps"
    by (simp only: t dr)
  finally show ?case by simp
qed

lemma fill_parents_eq:
  "fill_parents i F preds (replicate (length preds * F) ZeroDatasetID) =
     concat (map (\<lambda>pred. map (\<lambda>j. datasetIDFromNodeID (ID pred) (i + j)) [0..<F]) preds)"
  using fill_parents_from [of 0 preds F "replicate (length preds * F) ZeroDatasetID" i]
  by (simp add: fill_parents_def)

lemma those_map_total:
  "(\<And>x. x \<in> set xs \<Longrightarrow> f x = Some (g x)) \<Longrightarrow> those (map f xs) = Some (map g xs)"
  by (induction xs) simp_all

lemma those_length: "those xs = Some ys \<Longrightarrow> length ys = length xs"
  by (induction xs arbitrary: ys) (auto split: option.splits)

lemma nonYieldPredecessors_length:
  "nonYieldPredecessors node = Some preds \<Longrightarrow> length preds = length (Predecessors node)"
  by (auto simp: nonYieldPredecessors_def dest: those_length)

lemma new_executionContext_parents:
  assumes "new_executionContext node copies predCopies i = Some ec"
  shows "\<exists>preds. nonYieldPredecessors node = Some preds \<and>
           length preds = length (Predecessors node) \<and>
           int (length (parents ec)) = int (length preds) * predCopies \<and>
           parents ec =
             concat (map (\<lambda>pred. map (\<lambda>j. datasetIDFromNodeID (ID pred) (i + j))
                                    [0..<nat predCopies]) preds)"
proof -
  from assms have nn: "0 \<le> int (length (Predecessors node)) * predCopies"
    by (auto simp: new_executionContext_def split: if_splits)
  from assms obtain preds where pr: "nonYieldPredecessors node = Some preds"
    by (auto simp: new_executionContext_def split: if_splits option.splits)
  have len: "length preds = length (Predecessors node)"
    using pr by (rule nonYieldPredecessors_length)
  have n: "nat (int (length (Predecessors node)) * predCopies) = length preds * nat predCopies"
  proof (cases "0 \<le> predCopies")
    case True
    then show ?thesis by (simp add: len nat_mult_distrib)
  next
    case False
    with nn have "length (Predecessors node) = 0"
      by (auto simp: zero_le_mult_iff)
    then show ?thesis by (simp add: len)
  qed
  have pe: "parents ec =
      concat (map (\<lambda>pred. map (\<lambda>j. datasetIDFromNodeID (ID pred) (i + j))
                             [0..<nat predCopies]) preds)"
    using assms nn pr by (auto simp: new_executionContext_def n fill_parents_eq)
  have "int (length (parents ec)) = int (length preds) * predCopies"
  proof (cases "0 \<le> predCopies")
    case True
    then show ?thesis
      by (simp add: pe length_concat comp_def sum_list_triv)
  next
    case False
    with nn have "length (Predecessors node) = 0"
      by (auto simp: zero_le_mult_iff)
    then show ?thesis using len pe by simp
  qed
  with pr len pe show ?thesis by blast
qed

lemma parallel_run_contexts:
  assumes "ParallelRun node = Some F" "ParallelMerge node = None"
    "Predecessors node = [pred]" "skipYields pred = Some pred'" "0 \<le> F"
  shows "\<exists>ecs. executionContexts node (node_copies node) (node_predCopies node) = Some ecs \<and>
           int (length ecs) = F \<and>
           (\<forall>i < length ecs. parents (ecs ! i) = [datasetIDFromNodeID (ID pred') i])"
proof -
  let ?g = "\<lambda>i. \<lparr>parents = [datasetIDFromNodeID (ID pred') i], streamContext = Bounds node,
                  parallelOpts = \<lparr>Group = int i, Factor = F\<rparr>\<rparr>"
  have one: "new_executionContext node F 1 i = Some (?g i)" for i
    using assms
    by (simp add: new_executionContext_def nonYieldPredecessors_def fill_parents_def)
  have "executionContexts node (node_copies node) (node_predCopies node) =
          Some (map ?g [0..<nat F])"
    using assms one
    by (simp add: executionContexts_def node_copies_def node_predCopies_def those_map_total)
  then show ?thesis using assms(5) by simp
qed

lemma parallel_merge_contexts:
  assumes "ParallelRun node = None" "ParallelMerge node = Some F"
    "Predecessors node = [pred]" "skipYields pred = Some pred'" "0 \<le> F"
  shows "\<exists>ec. executionContexts node (node_copies node) (node_predCopies node) = Some [ec] \<and>
           int (length (parents ec)) = F \<and>
           parents ec = map (\<lambda>j. datasetIDFromNodeID (ID pred') j) [0..<nat F]"
proof -
  have "new_executionContext node 1 F 0 \<noteq> None"
    using assms by (simp add: new_executionContext_def nonYieldPredecessors_def)
  then obtain ec where ec: "new_executionContext node 1 F 0 = Some ec" by blast
  from new_executionContext_parents [OF ec] assms
  have p: "parents ec = map (\<lambda>j. datasetIDFromNodeID (ID pred') j) [0..<nat F]"
    by (simp add: nonYieldPredecessors_def)
  have "executionContexts node (node_copies node) (node_predCopies node) = Some [ec]"
    using assms ec by (simp add: executionContexts_def node_copies_def node_predCopies_def)
  with p assms(5) show ?thesis by simp
qed

text \<open>
  Claim C3, as the code has it. The parents of replica \<open>i\<close> of a node are, for each
  predecessor in declaration order (yields resolved), the replicas \<open>i + j\<close> of that
  predecessor for \<open>j < predCopies\<close>; their number is the number of predecessors times
  \<open>predCopies\<close>. For a parallel-run node with factor \<open>F\<close> and one predecessor, replica
  \<open>i\<close> has exactly one parent, replica \<open>i\<close> of the predecessor (the matching replica,
  not a single shared instance). For a parallel-merge node with predecessor factor \<open>F\<close>
  and one predecessor, the single replica has the \<open>F\<close> replicas of the predecessor as
  parents, in the order of their index.
\<close>

theorem replica_wiring:
  "(new_executionContext node copies predCopies i = Some ec \<longrightarrow>
      (\<exists>preds. nonYieldPredecessors node = Some preds \<and>
         length preds = length (Predecessors node) \<and>
         int (length (parents ec)) = int (length preds) * predCopies \<and>
         parents ec =
           concat (map (\<lambda>pred. map (\<lambda>j. datasetIDFromNodeID (ID pred) (i + j))
                                  [0..<nat predCopies]) preds))) \<and>
   (ParallelRun node = Some F \<and> ParallelMerge node = None \<and>
    Predecessors node = [pred] \<and> skipYields pred = Some pred' \<and> 0 \<le> F \<longrightarrow>
      (\<exists>ecs. executionContexts node (node_copies node) (node_predCopies node) = Some ecs \<and>
         int (length ecs) = F \<and>
         (\<forall>i < length ecs. parents (ecs ! i) = [datasetIDFromNodeID (ID pred') i]))) \<and>
   (ParallelRun node = None \<and> ParallelMerge node = Some F \<and>
    Predecessors node = [pred] \<and> skipYields pred = Some pred' \<and> 0 \<le> F \<longrightarrow>
      (\<exists>ec. executionContexts node (node_copies node) (node_predCopies node) = Some [ec] \<and>
         int (length (parents ec)) = F \<and>
         parents ec = map (\<lambda>j. datasetIDFromNodeID (ID pred') j) [0..<nat F]))"
  using new_executionContext_parents [of node copies predCopies i ec]
    parallel_run_contexts [of node F pred pred'] parallel_merge_contexts [of node F pred pred']
  by blast

theorem replica_wiring_witness:
  "(\<exists>ecs. executionContexts ex_parallel_map (node_copies ex_parallel_map)
            (node_predCopies ex_parallel_map) = Some ecs \<and>
      int (length ecs) = 2 \<and>
      (\<forall>i < length ecs. parents (ecs ! i) = [datasetIDFromNodeID (ID ex_from) i])) \<and>
   (\<exists>ec. executionContexts ex_merge (node_copies ex_merge) (node_predCopies ex_merge) = Some [ec] \<and>
      int (length (parents ec)) = 2 \<and>
      parents ec = map (\<lambda>j. datasetIDFromNodeID (ID ex_parallel_map) j) [0..<nat 2]) \<and>
   (\<exists>ec preds. new_executionContext ex_merge 1 2 0 = Some ec \<and>
      nonYieldPredecessors ex_merge = Some preds \<and>
      int (length (parents ec)) = int (length preds) * 2)"
proof -
  have r: "ParallelRun ex_parallel_map = Some 2 \<and> ParallelMerge ex_parallel_map = None \<and>
      Predecessors ex_parallel_map = [ex_from] \<and> skipYields ex_from = Some ex_from \<and> (0::int) \<le> 2"
    by (simp add: ex_parallel_map_def ex_from_def)
  have m: "ParallelRun ex_merge = None \<and> ParallelMerge ex_merge = Some 2 \<and>
      Predecessors ex_merge = [ex_parallel_map] \<and>
      skipYields ex_parallel_map = Some ex_parallel_map \<and> (0::int) \<le> 2"
    by (simp add: ex_merge_def ex_parallel_map_def)
  have "new_executionContext ex_merge 1 2 0 \<noteq> None"
    by (simp add: new_executionContext_def nonYieldPredecessors_def ex_merge_def
        ex_parallel_map_def)
  then obtain ec where c: "new_executionContext ex_merge 1 2 0 = Some ec" by blast
  from replica_wiring [of ex_parallel_map 1 1 0 ec 2 ex_from ex_from] r
  have a: "\<exists>ecs. executionContexts ex_parallel_map (node_copies ex_parallel_map)
            (node_predCopies ex_parallel_map) = Some ecs \<and>
      int (length ecs) = 2 \<and>
      (\<forall>i < length ecs. parents (ecs ! i) = [datasetIDFromNodeID (ID ex_from) i])"
    by blast
  from replica_wiring [of ex_merge 1 2 0 ec 2 ex_parallel_map ex_parallel_map] m c
  have b: "(\<exists>ec. executionContexts ex_merge (node_copies ex_merge) (node_predCopies ex_merge) = Some [ec] \<and>
      int (length (parents ec)) = 2 \<and>
      parents ec = map (\<lambda>j. datasetIDFromNodeID (ID ex_parallel_map) j) [0..<nat 2]) \<and>
   (\<exists>preds. nonYieldPredecessors ex_merge = Some preds \<and>
      int (length (parents ec)) = int (length preds) * 2)"
    by blast
  from a b c show ?thesis by blast
qed

text \<open>
  A node with parallel-run factor 2 over a single source that is not replicated: the
  parent of replica 1 is replica 1 of the source, which does not exist, not the single
  instance of the source; wiring the transports of such a node panics.
\<close>

theorem replica_wiring_counterexample:
  "ParallelRun ex_from = None \<and>
   map_option (map parents)
     (executionContexts ex_parallel_map (node_copies ex_parallel_map)
        (node_predCopies ex_parallel_map)) =
     Some [[datasetIDFromNodeID ''from0'' 0], [datasetIDFromNodeID ''from0'' 1]] \<and>
   [datasetIDFromNodeID ''from0'' 1] \<noteq> [datasetIDFromNodeID ''from0'' 0] \<and>
   walk (Visit ex_registry) [ex_from, ex_parallel_map] (new_visitor ex_plan) = None"
proof -
  have "walk (Visit ex_registry) [ex_from, ex_parallel_map] (new_visitor ex_plan) = None"
    by code_simp
  then show ?thesis
    by (simp add: executionContexts_def new_executionContext_def node_copies_def
        node_predCopies_def ex_parallel_map_def ex_from_def nonYieldPredecessors_def
        fill_parents_def upt_rec)
qed

subsection \<open>Results: naming and uniqueness\<close>

lemma AddTransformation_es: "AddTransformation p k t v = Some v' \<Longrightarrow> es v' = es v"
  by (auto simp: AddTransformation_def split: option.splits if_splits)

lemma set_node_es: "es (set_node node i n v) = es v"
  by (simp add: set_node_def split: option.splits)

lemma create_sources_results:
  "create_sources f node ec ks v = (r, v') \<Longrightarrow> results (es v') = results (es v)"
proof (induction ks arbitrary: v)
  case Nil
  then show ?case by simp
next
  case (Cons i ks)
  show ?case
  proof (cases "f (ProcedureSpec node) (datasetIDFromNodeID (ID node) i) (ec ! i)")
    case None
    let ?source = "\<lparr>node_id = datasetIDFromNodeID (ID node) i, node_label = ID node,
                     downstream = []\<rparr>"
    let ?v1 = "set_node node i ?source (v\<lparr>es := (es v)\<lparr>sources := sources (es v) @ [?source]\<rparr>\<rparr>)"
    from Cons.prems None have "create_sources f node ec ks ?v1 = (r, v')"
      by (simp add: Let_def)
    from Cons.IH [OF this] show ?thesis by (simp add: set_node_es)
  next
    case (Some e)
    with Cons.prems show ?thesis by simp
  qed
qed

lemma link_copies_results:
  "link_copies tr p i js v = Some v' \<Longrightarrow> results (es v') = results (es v)"
proof (induction js arbitrary: v)
  case Nil
  then show ?case by simp
next
  case (Cons j js)
  let ?v0 = "v\<lparr>es := (es v)\<lparr>transports := transports (es v) @ [tr]\<rparr>\<rparr>"
  from Cons.prems obtain v1 where
    a: "AddTransformation p (i + j) (ToTransport tr) ?v0 = Some v1"
    and l: "link_copies tr p i js v1 = Some v'"
    by (auto split: option.splits)
  from AddTransformation_es [OF a] Cons.IH [OF l] show ?case by simp
qed

lemma link_predecessors_results:
  "link_predecessors tr ps i predCopies v = Some v' \<Longrightarrow> results (es v') = results (es v)"
proof (induction ps arbitrary: v)
  case Nil
  then show ?case by simp
next
  case (Cons p ps)
  from Cons.prems obtain v1 where
    a: "link_copies tr p i [0..<predCopies] v = Some v1"
    and l: "link_predecessors tr ps i predCopies v1 = Some v'"
    by (auto split: option.splits)
  from link_copies_results [OF a] Cons.IH [OF l] show ?case by simp
qed

lemma create_transformations_results:
  "create_transformations f node ec predCopies ks v = Some (r, v') \<Longrightarrow>
     results (es v') = results (es v)"
proof (induction ks arbitrary: v)
  case Nil
  then show ?case by simp
next
  case (Cons i ks)
  show ?case
  proof (cases "f (datasetIDFromNodeID (ID node) i) (ProcedureSpec node) (ec ! i)")
    case None
    let ?ds = "\<lparr>node_id = datasetIDFromNodeID (ID node) i, node_label = ID node,
                 downstream = []\<rparr>"
    from Cons.prems None obtain preds v2 where
      l: "link_predecessors (datasetIDFromNodeID (ID node) i) preds i predCopies
            (set_node node i ?ds v) = Some v2"
      and c: "create_transformations f node ec predCopies ks v2 = Some (r, v')"
      by (auto simp: Let_def split: option.splits)
    from link_predecessors_results [OF l] Cons.IH [OF c] show ?thesis
      by (simp add: set_node_es)
  next
    case (Some e)
    with Cons.prems show ?thesis by simp
  qed
qed

lemma generateResult_duplicate:
  "results (es v) resultName \<noteq> None \<Longrightarrow>
     generateResult resultName node idx v =
       Some (Some (errors_New Invalid
               (''tried to produce more than one result with the name '' @ resultName)), v)"
  by (simp add: generateResult_def)

lemma generateResult_cases:
  assumes "generateResult resultName node idx v = Some (r, v')"
  shows "(r \<noteq> None \<longrightarrow> v' = v \<and> results (es v) resultName \<noteq> None) \<and>
         (r = None \<longrightarrow> results (es v) resultName = None \<and>
            results (es v') = (results (es v))(resultName \<mapsto> newResult resultName))"
proof (cases "results (es v) resultName")
  case None
  let ?v1 = "v\<lparr>es := (es v)\<lparr>results := (results (es v))(resultName \<mapsto> newResult resultName)\<rparr>\<rparr>"
  from assms None obtain n where
    a: "AddTransformation n idx (ToResult resultName) ?v1 = Some v'" and r: "r = None"
    by (auto simp: generateResult_def Let_def split: option.splits)
  from AddTransformation_es [OF a] r None show ?thesis by simp
next
  case (Some x)
  with assms show ?thesis by (auto simp: generateResult_def)
qed

lemma errors_Code_New [simp]: "c \<noteq> Inherit \<Longrightarrow> errors_Code (errors_New c msg) = c"
  by (simp add: errors_New_def)

lemma errors_Code_Wrap_Inherit [simp]:
  "errors_Code (errors_Wrap e Inherit msg) = errors_Code e"
  by (simp add: errors_Wrap_def)

lemma errors_Code_Wrap [simp]: "c \<noteq> Inherit \<Longrightarrow> errors_Code (errors_Wrap e c msg) = c"
  by (simp add: errors_Wrap_def)

lemma create_nodes_results:
  assumes "create_nodes reg node ec copies predCopies v = Some (r, v')"
  shows "results (es v') = results (es v)"
proof (cases "length (Predecessors node) = 0")
  case True
  show ?thesis
  proof (cases "procedureToSource reg (Kind (ProcedureSpec node))")
    case None
    with assms True show ?thesis by (auto simp: create_nodes_def)
  next
    case (Some f)
    with assms True have "create_sources f node ec [0..<nat copies] v = (r, v')"
      by (simp add: create_nodes_def)
    then show ?thesis by (rule create_sources_results)
  qed
next
  case False
  show ?thesis
  proof (cases "procedureToTransformation reg (Kind (ProcedureSpec node))")
    case None
    with assms False show ?thesis by (auto simp: create_nodes_def)
  next
    case (Some f)
    with assms False
    have "create_transformations f node ec (nat predCopies) [0..<nat copies] v = Some (r, v')"
      by (simp add: create_nodes_def)
    then show ?thesis by (rule create_transformations_results)
  qed
qed

lemma Visit_yield:
  "isPhysical node \<Longrightarrow> YieldName (ProcedureSpec node) = Some yn \<Longrightarrow>
     Visit reg node v = generateResult yn node 0 v"
  by (simp add: Visit_def)

lemma Visit_node:
  assumes ph: "isPhysical node" and ny: "YieldName (ProcedureSpec node) = None"
    and vis: "Visit reg node v = Some (r, v')"
  shows "(\<exists>e. r = Some e \<and> results (es v') = results (es v)) \<or>
         (\<exists>v2. results (es v2) = results (es v) \<and>
            terminal_result node (ParallelMerge node \<noteq> None) v2 = Some (r, v'))"
proof -
  from vis ph ny obtain ec where
    ec: "executionContexts node (node_copies node) (node_predCopies node) = Some ec"
    by (auto simp: Visit_def Let_def split: option.splits)
  let ?v1 = "v\<lparr>nodes := (nodes v)(node \<mapsto> replicate (nat (node_copies node)) None)\<rparr>"
  from vis ph ny ec obtain r2 v2 where
    made: "create_nodes reg node ec (node_copies node) (node_predCopies node) ?v1 = Some (r2, v2)"
    by (auto simp: Visit_def Let_def split: option.splits)
  from create_nodes_results [OF made] have res: "results (es v2) = results (es v)"
    by simp
  show ?thesis
  proof (cases r2)
    case (Some e)
    with vis ph ny ec made have "r = Some e" "v' = v2"
      by (simp_all add: Visit_def Let_def)
    with res show ?thesis by simp
  next
    case None
    with vis ph ny ec made
    have "terminal_result node (ParallelMerge node \<noteq> None) v2 = Some (r, v')"
      by (simp add: Visit_def Let_def)
    with res show ?thesis by blast
  qed
qed

lemma Visit_error_keeps_results:
  assumes vis: "Visit reg node v = Some (Some e, v')"
  shows "results (es v') = results (es v)"
proof (cases "isPhysical node")
  case False
  with vis show ?thesis by (simp add: Visit_def)
next
  case True
  show ?thesis
  proof (cases "YieldName (ProcedureSpec node)")
    case (Some yn)
    with vis True have "generateResult yn node 0 v = Some (Some e, v')"
      by (simp add: Visit_def)
    from generateResult_cases [OF this] show ?thesis by simp
  next
    case None
    from Visit_node [OF True None vis] show ?thesis
    proof
      assume "\<exists>e'. Some e = Some e' \<and> results (es v') = results (es v)"
      then show ?thesis by simp
    next
      assume "\<exists>v2. results (es v2) = results (es v) \<and>
            terminal_result node (ParallelMerge node \<noteq> None) v2 = Some (Some e, v')"
      then obtain v2 where res: "results (es v2) = results (es v)"
        and t: "terminal_result node (ParallelMerge node \<noteq> None) v2 = Some (Some e, v')"
        by blast
      show ?thesis
      proof (cases "getResultName node (ProcedureSpec node) (ParallelMerge node \<noteq> None)")
        case (Inl e')
        with t res show ?thesis by (auto simp: terminal_result_def split: if_splits)
      next
        case (Inr resultName)
        show ?thesis
        proof (cases "length (Successors node) = 0")
          case True
          with t Inr have "generateResult resultName node 0 v2 = Some (Some e, v')"
            by (simp add: terminal_result_def)
          from generateResult_cases [OF this] res show ?thesis by simp
        next
          case False
          with t show ?thesis by (simp add: terminal_result_def)
        qed
      qed
    qed
  qed
qed


lemma getResultName_props:
  "(\<not> isPM \<longrightarrow>
      getResultName node spec isPM =
        Inr (if HasSideEffect spec then ID node else DefaultYieldName)) \<and>
   (isPM \<and> Predecessors node = [pred] \<longrightarrow>
      getResultName node spec isPM =
        Inr (if HasSideEffect (ProcedureSpec pred) then ID node else DefaultYieldName)) \<and>
   (isPM \<and> length (Predecessors node) \<noteq> 1 \<longrightarrow>
      (\<exists>e. getResultName node spec isPM = Inl e \<and> errors_Code e = Internal))"
  by (auto simp: getResultName_def Let_def)

lemma Visit_terminal_success:
  assumes ph: "isPhysical node" and ny: "YieldName (ProcedureSpec node) = None"
    and leaf: "Successors node = []" and vis: "Visit reg node v = Some (None, v')"
  shows "\<exists>resultName.
           getResultName node (ProcedureSpec node) (ParallelMerge node \<noteq> None) = Inr resultName \<and>
           results (es v) resultName = None \<and>
           results (es v') = (results (es v))(resultName \<mapsto> newResult resultName)"
proof -
  from Visit_node [OF ph ny vis] obtain v2 where res: "results (es v2) = results (es v)"
    and t: "terminal_result node (ParallelMerge node \<noteq> None) v2 = Some (None, v')"
    by auto
  from t leaf obtain resultName where
    n: "getResultName node (ProcedureSpec node) (ParallelMerge node \<noteq> None) = Inr resultName"
    and g: "generateResult resultName node 0 v2 = Some (None, v')"
    by (auto simp: terminal_result_def split: sum.splits)
  from generateResult_cases [OF g] res n show ?thesis by simp
qed

lemma Visit_inner_keeps_results:
  assumes ph: "isPhysical node" and ny: "YieldName (ProcedureSpec node) = None"
    and inner: "Successors node \<noteq> []" and vis: "Visit reg node v = Some (r, v')"
  shows "results (es v') = results (es v)"
  using Visit_node [OF ph ny vis] inner
  by (auto simp: terminal_result_def)

lemma Visit_terminal_duplicate:
  assumes ph: "isPhysical node" and ny: "YieldName (ProcedureSpec node) = None"
    and leaf: "Successors node = []"
    and n: "getResultName node (ProcedureSpec node) (ParallelMerge node \<noteq> None) = Inr resultName"
    and dup: "results (es v) resultName \<noteq> None"
    and vis: "Visit reg node v = Some (r, v')"
  shows "\<exists>e. r = Some e \<and> results (es v') = results (es v) \<and>
           (\<forall>ec v2. executionContexts node (node_copies node) (node_predCopies node) = Some ec \<and>
                create_nodes reg node ec (node_copies node) (node_predCopies node)
                  (v\<lparr>nodes := (nodes v)(node \<mapsto> replicate (nat (node_copies node)) None)\<rparr>)
                  = Some (None, v2) \<longrightarrow> errors_Code e = Invalid)"
proof -
  have "r \<noteq> None"
  proof
    assume "r = None"
    with Visit_terminal_success [OF ph ny leaf] vis n dup show False by auto
  qed
  then obtain e where r: "r = Some e" by blast
  from Visit_error_keeps_results vis r have k: "results (es v') = results (es v)" by blast
  have "errors_Code e = Invalid"
    if ec: "executionContexts node (node_copies node) (node_predCopies node) = Some ec"
      and cn: "create_nodes reg node ec (node_copies node) (node_predCopies node)
                  (v\<lparr>nodes := (nodes v)(node \<mapsto> replicate (nat (node_copies node)) None)\<rparr>)
                  = Some (None, v2)" for ec v2
  proof -
    from create_nodes_results [OF cn] have "results (es v2) resultName \<noteq> None"
      using dup by simp
    then have g: "generateResult resultName node 0 v2 =
        Some (Some (errors_New Invalid
               (''tried to produce more than one result with the name '' @ resultName)), v2)"
      by (rule generateResult_duplicate)
    from vis r ph ny ec cn leaf n
    have "generateResult resultName node 0 v2 = Some (Some e, v')"
      by (simp add: Visit_def Let_def terminal_result_def)
    with g have "e = errors_New Invalid
               (''tried to produce more than one result with the name '' @ resultName)"
      by simp
    then show ?thesis by simp
  qed
  with r k show ?thesis by blast
qed

text \<open>
  Claim C5. Generating a result under a name that the results map already holds returns
  an error of code \<open>Invalid\<close> (which the \<open>Inherit\<close> wrapper of \<open>Execute\<close> keeps) and
  leaves the visitor, so the results map, unchanged. This is what \<open>Visit\<close> does for a
  yield whose name is taken; for a terminal node whose generated name is taken \<open>Visit\<close>
  returns an error, of code \<open>Invalid\<close> when the node's replicas were created, and the
  results map is unchanged. No failing \<open>Visit\<close> changes the results map.
\<close>

theorem result_name_uniqueness:
  "(results (es v) resultName \<noteq> None \<longrightarrow>
      (\<exists>e. generateResult resultName node idx v = Some (Some e, v) \<and>
         errors_Code e = Invalid \<and> errors_Code (errors_Wrap e Inherit msg) = Invalid)) \<and>
   (isPhysical node \<and> YieldName (ProcedureSpec node) = Some resultName \<and>
    results (es v) resultName \<noteq> None \<longrightarrow>
      (\<exists>e. Visit reg node v = Some (Some e, v) \<and> errors_Code e = Invalid)) \<and>
   (isPhysical node \<and> YieldName (ProcedureSpec node) = None \<and> Successors node = [] \<and>
    getResultName node (ProcedureSpec node) (ParallelMerge node \<noteq> None) = Inr resultName \<and>
    results (es v) resultName \<noteq> None \<and> Visit reg node v = Some (r, v') \<longrightarrow>
      (\<exists>e. r = Some e \<and> results (es v') = results (es v) \<and>
         (\<forall>ec v2. executionContexts node (node_copies node) (node_predCopies node) = Some ec \<and>
              create_nodes reg node ec (node_copies node) (node_predCopies node)
                (v\<lparr>nodes := (nodes v)(node \<mapsto> replicate (nat (node_copies node)) None)\<rparr>)
                = Some (None, v2) \<longrightarrow> errors_Code e = Invalid))) \<and>
   (Visit reg node v = Some (Some err, v') \<longrightarrow> results (es v') = results (es v))"
proof (intro conjI impI)
  assume "results (es v) resultName \<noteq> None"
  from generateResult_duplicate [OF this, of node idx]
  show "\<exists>e. generateResult resultName node idx v = Some (Some e, v) \<and>
         errors_Code e = Invalid \<and> errors_Code (errors_Wrap e Inherit msg) = Invalid"
    by simp
next
  assume h: "isPhysical node \<and> YieldName (ProcedureSpec node) = Some resultName \<and>
    results (es v) resultName \<noteq> None"
  then have "Visit reg node v = generateResult resultName node 0 v"
    by (simp add: Visit_yield)
  with h generateResult_duplicate [of v resultName node 0]
  show "\<exists>e. Visit reg node v = Some (Some e, v) \<and> errors_Code e = Invalid"
    by simp
next
  assume "isPhysical node \<and> YieldName (ProcedureSpec node) = None \<and> Successors node = [] \<and>
    getResultName node (ProcedureSpec node) (ParallelMerge node \<noteq> None) = Inr resultName \<and>
    results (es v) resultName \<noteq> None \<and> Visit reg node v = Some (r, v')"
  then show "\<exists>e. r = Some e \<and> results (es v') = results (es v) \<and>
         (\<forall>ec v2. executionContexts node (node_copies node) (node_predCopies node) = Some ec \<and>
              create_nodes reg node ec (node_copies node) (node_predCopies node)
                (v\<lparr>nodes := (nodes v)(node \<mapsto> replicate (nat (node_copies node)) None)\<rparr>)
                = Some (None, v2) \<longrightarrow> errors_Code e = Invalid)"
    using Visit_terminal_duplicate [where node = node and reg = reg and v = v] by blast
next
  assume "Visit reg node v = Some (Some err, v')"
  then show "results (es v') = results (es v)"
    by (rule Visit_error_keeps_results)
qed

theorem result_name_uniqueness_witness:
  "(\<exists>e. Visit ex_registry (ex_yield ''yield3'' ''out'')
          (ex_visitor [''out'' \<mapsto> newResult ''out'']) =
            Some (Some e, ex_visitor [''out'' \<mapsto> newResult ''out'']) \<and>
        errors_Code e = Invalid) \<and>
   (\<exists>e v'. Visit ex_registry ex_filter (ex_visitor [DefaultYieldName \<mapsto> newResult ''x'']) =
            Some (Some e, v') \<and>
        results (es v') = [DefaultYieldName \<mapsto> newResult ''x''] \<and> errors_Code e = Invalid)"
proof -
  let ?v = "ex_visitor [''out'' \<mapsto> newResult ''out'']"
  let ?w = "ex_visitor [DefaultYieldName \<mapsto> newResult ''x'']"
  have h1: "isPhysical (ex_yield ''yield3'' ''out'') \<and>
      YieldName (ProcedureSpec (ex_yield ''yield3'' ''out'')) = Some ''out'' \<and>
      results (es ?v) ''out'' \<noteq> None"
    by (simp add: ex_yield_def ex_visitor_def)
  from result_name_uniqueness
         [of ?v "''out''" "ex_yield ''yield3'' ''out''" 0 "[]" ex_registry None ?v undefined] h1
  have a: "\<exists>e. Visit ex_registry (ex_yield ''yield3'' ''out'') ?v = Some (Some e, ?v) \<and>
        errors_Code e = Invalid"
    by blast
  have h2: "isPhysical ex_filter \<and> YieldName (ProcedureSpec ex_filter) = None \<and>
      Successors ex_filter = [] \<and>
      getResultName ex_filter (ProcedureSpec ex_filter) (ParallelMerge ex_filter \<noteq> None) =
        Inr DefaultYieldName \<and>
      results (es ?w) DefaultYieldName \<noteq> None"
    by (simp add: ex_filter_def ex_visitor_def getResultName_def)
  have ec: "executionContexts ex_filter (node_copies ex_filter) (node_predCopies ex_filter) =
      Some [\<lparr>parents = [datasetIDFromNodeID ''map1'' 0], streamContext = None,
              parallelOpts = \<lparr>Group = 0, Factor = 1\<rparr>\<rparr>]"
    by (simp add: executionContexts_def new_executionContext_def node_copies_def
        node_predCopies_def ex_filter_def ex_map_def nonYieldPredecessors_def fill_parents_def)
  have "\<exists>v2. create_nodes ex_registry ex_filter
          [\<lparr>parents = [datasetIDFromNodeID ''map1'' 0], streamContext = None,
              parallelOpts = \<lparr>Group = 0, Factor = 1\<rparr>\<rparr>]
          (node_copies ex_filter) (node_predCopies ex_filter)
          (?w\<lparr>nodes := (nodes ?w)(ex_filter \<mapsto> replicate (nat (node_copies ex_filter)) None)\<rparr>)
        = Some (None, v2)"
    by (simp add: create_nodes_def ex_registry_def ex_filter_def ex_map_def ex_from_def
        node_copies_def node_predCopies_def nonYieldPredecessors_def set_node_def
        AddTransformation_def ex_visitor_def Let_def)
  then obtain v2 where cn: "create_nodes ex_registry ex_filter
          [\<lparr>parents = [datasetIDFromNodeID ''map1'' 0], streamContext = None,
              parallelOpts = \<lparr>Group = 0, Factor = 1\<rparr>\<rparr>]
          (node_copies ex_filter) (node_predCopies ex_filter)
          (?w\<lparr>nodes := (nodes ?w)(ex_filter \<mapsto> replicate (nat (node_copies ex_filter)) None)\<rparr>)
        = Some (None, v2)"
    by blast
  have "Visit ex_registry ex_filter ?w \<noteq> None"
    using h2 ec cn generateResult_duplicate [of v2 DefaultYieldName ex_filter 0]
      create_nodes_results [OF cn]
    by (simp add: Visit_def Let_def terminal_result_def)
  then obtain r v' where vis: "Visit ex_registry ex_filter ?w = Some (r, v')"
    by (cases "Visit ex_registry ex_filter ?w") auto
  from result_name_uniqueness
         [of ?w DefaultYieldName ex_filter 0 "[]" ex_registry r v' undefined] h2 vis ec cn
  have "\<exists>e. r = Some e \<and> results (es v') = results (es ?w) \<and> errors_Code e = Invalid"
    by blast
  with vis have b: "\<exists>e v'. Visit ex_registry ex_filter ?w = Some (Some e, v') \<and>
        results (es v') = [DefaultYieldName \<mapsto> newResult ''x''] \<and> errors_Code e = Invalid"
    by (auto simp: ex_visitor_def)
  from a b show ?thesis by blast
qed

text \<open>
  Claim C6. \<open>getResultName\<close> returns the default yield name, or the identity of the node
  when the spec it looks at has a side effect; that spec is the node's own, or for a
  parallel-merge node the spec of its single predecessor; a parallel-merge node with
  another number of predecessors is an error (of code \<open>Internal\<close>). A terminal node that
  \<open>Visit\<close> accepts gets its result under exactly that name; a node with successors
  that is no yield gets none.
\<close>

theorem terminal_result_naming:
  "(\<not> isPM \<longrightarrow>
      getResultName node spec isPM =
        Inr (if HasSideEffect spec then ID node else DefaultYieldName)) \<and>
   (isPM \<and> Predecessors node = [pred] \<longrightarrow>
      getResultName node spec isPM =
        Inr (if HasSideEffect (ProcedureSpec pred) then ID node else DefaultYieldName)) \<and>
   (isPM \<and> length (Predecessors node) \<noteq> 1 \<longrightarrow>
      (\<exists>e. getResultName node spec isPM = Inl e \<and> errors_Code e = Internal)) \<and>
   (isPhysical node \<and> YieldName (ProcedureSpec node) = None \<and> Successors node = [] \<and>
    Visit reg node v = Some (None, v') \<longrightarrow>
      (\<exists>resultName.
         getResultName node (ProcedureSpec node) (ParallelMerge node \<noteq> None) = Inr resultName \<and>
         results (es v) resultName = None \<and>
         results (es v') = (results (es v))(resultName \<mapsto> newResult resultName))) \<and>
   (isPhysical node \<and> YieldName (ProcedureSpec node) = None \<and> Successors node \<noteq> [] \<and>
    Visit reg node v = Some (r, v') \<longrightarrow> results (es v') = results (es v))"
  using getResultName_props [of isPM node spec pred]
    Visit_terminal_success [of node reg v v'] Visit_inner_keeps_results [of node reg v r v']
  by blast

theorem terminal_result_naming_witness:
  "getResultName ex_filter (ProcedureSpec ex_filter) False = Inr DefaultYieldName \<and>
   getResultName ex_merge (ProcedureSpec ex_merge) True = Inr DefaultYieldName \<and>
   (\<exists>e. getResultName ex_from (ProcedureSpec ex_from) True = Inl e \<and> errors_Code e = Internal) \<and>
   (\<exists>v'. Visit ex_registry ex_filter (ex_visitor Map.empty) = Some (None, v') \<and>
      results (es v') = [DefaultYieldName \<mapsto> newResult DefaultYieldName]) \<and>
   (\<exists>r v'. Visit ex_registry ex_from (ex_visitor Map.empty) = Some (r, v') \<and>
      results (es v') = Map.empty)"
proof -
  have a: "getResultName ex_filter (ProcedureSpec ex_filter) False = Inr DefaultYieldName"
    using terminal_result_naming
            [where isPM = False and node = ex_filter and spec = "ProcedureSpec ex_filter"]
    by (simp add: ex_filter_def)
  have b: "getResultName ex_merge (ProcedureSpec ex_merge) True = Inr DefaultYieldName"
    using terminal_result_naming
            [where isPM = True and node = ex_merge and spec = "ProcedureSpec ex_merge"
               and pred = ex_parallel_map]
    by (simp add: ex_merge_def ex_parallel_map_def)
  have c: "\<exists>e. getResultName ex_from (ProcedureSpec ex_from) True = Inl e \<and>
      errors_Code e = Internal"
    using terminal_result_naming
            [where isPM = True and node = ex_from and spec = "ProcedureSpec ex_from"]
    by (simp add: ex_from_def)
  have "map_option fst (Visit ex_registry ex_filter (ex_visitor Map.empty)) = Some None"
    by code_simp
  then obtain v' where vis: "Visit ex_registry ex_filter (ex_visitor Map.empty) = Some (None, v')"
    by (cases "Visit ex_registry ex_filter (ex_visitor Map.empty)") auto
  have h: "isPhysical ex_filter \<and> YieldName (ProcedureSpec ex_filter) = None \<and>
      Successors ex_filter = []"
    by (simp add: ex_filter_def)
  from terminal_result_naming
         [where node = ex_filter and reg = ex_registry and v = "ex_visitor Map.empty"
            and v' = v' and isPM = False and spec = "ProcedureSpec ex_filter"] h vis a
  have d: "results (es v') = [DefaultYieldName \<mapsto> newResult DefaultYieldName]"
    by (auto simp: ex_visitor_def ex_filter_def)
  have "map_option fst (Visit ex_registry ex_from (ex_visitor Map.empty)) = Some None"
    by code_simp
  then obtain w' where vis2: "Visit ex_registry ex_from (ex_visitor Map.empty) = Some (None, w')"
    by (cases "Visit ex_registry ex_from (ex_visitor Map.empty)") auto
  have h2: "isPhysical ex_from \<and> YieldName (ProcedureSpec ex_from) = None \<and>
      Successors ex_from \<noteq> []"
    by (simp add: ex_from_def)
  from terminal_result_naming
         [where node = ex_from and reg = ex_registry and v = "ex_visitor Map.empty"
            and v' = w' and r = None] h2 vis2
  have e: "results (es w') = Map.empty"
    by (simp add: ex_visitor_def)
  from a b c d e vis vis2 show ?thesis by blast
qed

subsection \<open>Execute: what it returns and what it starts\<close>

lemma createExecutionState_cases:
  "createExecutionState reg ctx p =
     (case BottomUpWalk p (Visit reg) (new_visitor p) of
        None \<Rightarrow> None
      | Some (r, v) \<Rightarrow>
          (case r of
             Some err \<Rightarrow> Some (Inl err)
           | None \<Rightarrow>
               (case chooseDefaultResources ctx p ((es v)\<lparr>metaChCap := length (sources (es v))\<rparr>) of
                  None \<Rightarrow> None
                | Some s \<Rightarrow>
                    if ConcurrencyQuota (resources s) = 0
                    then Some (Inl (errors_Wrap
                           (errors_New Invalid ''execution state must have a non-zero concurrency quota'')
                           Invalid ''execution state''))
                    else Some (Inr s))))"
  by (simp add: createExecutionState_def validate_def split: option.splits prod.splits)

lemma Execute_cases:
  assumes ex: "Execute reg ctx p = Some (ret, started)"
  shows "(\<exists>e v. BottomUpWalk p (Visit reg) (new_visitor p) = Some (Some e, v) \<and>
            ret_err ret = Some (errors_Wrap e Inherit ''failed to initialize execute state'') \<and>
            started = [] \<and> ret_results ret = None \<and> ret_metaCh ret = None) \<or>
         (\<exists>v s e. BottomUpWalk p (Visit reg) (new_visitor p) = Some (None, v) \<and>
            chooseDefaultResources ctx p ((es v)\<lparr>metaChCap := length (sources (es v))\<rparr>) = Some s \<and>
            validate s = Some e \<and> ConcurrencyQuota (resources s) = 0 \<and>
            ret_err ret = Some (errors_Wrap (errors_Wrap e Invalid ''execution state'') Inherit
                                  ''failed to initialize execute state'') \<and>
            started = [] \<and> ret_results ret = None \<and> ret_metaCh ret = None) \<or>
         (\<exists>v s. BottomUpWalk p (Visit reg) (new_visitor p) = Some (None, v) \<and>
            chooseDefaultResources ctx p ((es v)\<lparr>metaChCap := length (sources (es v))\<rparr>) = Some s \<and>
            validate s = None \<and> ConcurrencyQuota (resources s) \<noteq> 0 \<and>
            ret_err ret = None \<and> started = do s \<and> ret_results ret = Some (results s) \<and>
            ret_metaCh ret = Some (metaChCap s))"
proof (cases "BottomUpWalk p (Visit reg) (new_visitor p)")
  case None
  with ex show ?thesis by (simp add: Execute_def createExecutionState_cases)
next
  case (Some rv)
  obtain r v where rv: "rv = (r, v)" by (cases rv)
  show ?thesis
  proof (cases r)
    case (Some e)
    with ex \<open>BottomUpWalk p (Visit reg) (new_visitor p) = Some rv\<close> rv
    have "ret = \<lparr>ret_results = None, ret_metaCh = None,
                  ret_err = Some (errors_Wrap e Inherit ''failed to initialize execute state'')\<rparr>"
      and "started = []"
      by (simp_all add: Execute_def createExecutionState_cases)
    with Some \<open>BottomUpWalk p (Visit reg) (new_visitor p) = Some rv\<close> rv
    show ?thesis by simp
  next
    case None
    note w = \<open>BottomUpWalk p (Visit reg) (new_visitor p) = Some rv\<close> [unfolded rv None]
    show ?thesis
    proof (cases "chooseDefaultResources ctx p ((es v)\<lparr>metaChCap := length (sources (es v))\<rparr>)")
      case None
      with ex w show ?thesis by (simp add: Execute_def createExecutionState_cases)
    next
      case (Some s)
      show ?thesis
      proof (cases "ConcurrencyQuota (resources s) = 0")
        case True
        with ex w Some
        have "ret = \<lparr>ret_results = None, ret_metaCh = None,
                  ret_err = Some (errors_Wrap (errors_Wrap
                     (errors_New Invalid ''execution state must have a non-zero concurrency quota'')
                     Invalid ''execution state'') Inherit ''failed to initialize execute state'')\<rparr>"
          and "started = []"
          by (simp_all add: Execute_def createExecutionState_cases)
        with w Some True show ?thesis by (simp add: validate_def)
      next
        case False
        with ex w Some
        have "ret = \<lparr>ret_results = Some (results s), ret_metaCh = Some (metaChCap s),
                  ret_err = None\<rparr>"
          and "started = do s"
          by (simp_all add: Execute_def createExecutionState_cases)
        with w Some False show ?thesis by (simp add: validate_def)
      qed
    qed
  qed
qed

text \<open>
  Claim C7. When \<open>Execute\<close> returns, its error is non-nil exactly when the walk of the
  graph builder returned an error or the validation of the built state failed; then
  nothing has been started and no results are returned. When the quota resolved by
  \<open>chooseDefaultResources\<close> is 0 the error returned has code \<open>Invalid\<close>. Without error,
  the dispatcher has been started with the resolved quota, which is not 0. The error
  is fixed before \<open>do\<close> starts anything, and \<open>do\<close> returns nothing: a failure of the run
  has no way into the value \<open>Execute\<close> returns.
\<close>

theorem execute_error_semantics:
  "Execute reg ctx p = Some (ret, started) \<longrightarrow>
     (ret_err ret \<noteq> None \<longleftrightarrow>
        (\<exists>e v. BottomUpWalk p (Visit reg) (new_visitor p) = Some (Some e, v)) \<or>
        (\<exists>v s e. BottomUpWalk p (Visit reg) (new_visitor p) = Some (None, v) \<and>
           chooseDefaultResources ctx p ((es v)\<lparr>metaChCap := length (sources (es v))\<rparr>) = Some s \<and>
           validate s = Some e)) \<and>
     (ret_err ret \<noteq> None \<longrightarrow> started = [] \<and> ret_results ret = None \<and> ret_metaCh ret = None) \<and>
     (\<forall>v s. BottomUpWalk p (Visit reg) (new_visitor p) = Some (None, v) \<and>
        chooseDefaultResources ctx p ((es v)\<lparr>metaChCap := length (sources (es v))\<rparr>) = Some s \<and>
        ConcurrencyQuota (resources s) = 0 \<longrightarrow>
          (\<exists>e. ret_err ret = Some e \<and> errors_Code e = Invalid)) \<and>
     (ret_err ret = None \<longrightarrow>
        (\<exists>s. ret_results ret = Some (results s) \<and> started = do s \<and>
           ConcurrencyQuota (resources s) \<noteq> 0 \<and>
           DispatcherStart (ConcurrencyQuota (resources s)) \<in> set started))"
proof
  assume ex: "Execute reg ctx p = Some (ret, started)"
  from Execute_cases [OF ex]
  consider
    (walk) e v where "BottomUpWalk p (Visit reg) (new_visitor p) = Some (Some e, v)"
      "ret_err ret = Some (errors_Wrap e Inherit ''failed to initialize execute state'')"
      "started = []" "ret_results ret = None" "ret_metaCh ret = None"
  | (invalid) v s e where "BottomUpWalk p (Visit reg) (new_visitor p) = Some (None, v)"
      "chooseDefaultResources ctx p ((es v)\<lparr>metaChCap := length (sources (es v))\<rparr>) = Some s"
      "validate s = Some e" "ConcurrencyQuota (resources s) = 0"
      "ret_err ret = Some (errors_Wrap (errors_Wrap e Invalid ''execution state'') Inherit
                                  ''failed to initialize execute state'')"
      "started = []" "ret_results ret = None" "ret_metaCh ret = None"
  | (run) v s where "BottomUpWalk p (Visit reg) (new_visitor p) = Some (None, v)"
      "chooseDefaultResources ctx p ((es v)\<lparr>metaChCap := length (sources (es v))\<rparr>) = Some s"
      "validate s = None" "ConcurrencyQuota (resources s) \<noteq> 0"
      "ret_err ret = None" "started = do s" "ret_results ret = Some (results s)"
    by blast
  then show "(ret_err ret \<noteq> None \<longleftrightarrow>
        (\<exists>e v. BottomUpWalk p (Visit reg) (new_visitor p) = Some (Some e, v)) \<or>
        (\<exists>v s e. BottomUpWalk p (Visit reg) (new_visitor p) = Some (None, v) \<and>
           chooseDefaultResources ctx p ((es v)\<lparr>metaChCap := length (sources (es v))\<rparr>) = Some s \<and>
           validate s = Some e)) \<and>
     (ret_err ret \<noteq> None \<longrightarrow> started = [] \<and> ret_results ret = None \<and> ret_metaCh ret = None) \<and>
     (\<forall>v s. BottomUpWalk p (Visit reg) (new_visitor p) = Some (None, v) \<and>
        chooseDefaultResources ctx p ((es v)\<lparr>metaChCap := length (sources (es v))\<rparr>) = Some s \<and>
        ConcurrencyQuota (resources s) = 0 \<longrightarrow>
          (\<exists>e. ret_err ret = Some e \<and> errors_Code e = Invalid)) \<and>
     (ret_err ret = None \<longrightarrow>
        (\<exists>s. ret_results ret = Some (results s) \<and> started = do s \<and>
           ConcurrencyQuota (resources s) \<noteq> 0 \<and>
           DispatcherStart (ConcurrencyQuota (resources s)) \<in> set started))"
  proof cases
    case walk
    then show ?thesis by simp
  next
    case invalid
    then show ?thesis by auto
  next
    case run
    then show ?thesis by (auto simp: do_def)
  qed
qed

theorem execute_error_semantics_witness:
  "(\<exists>ret. Execute ex_registry (ctx_limit 0) ex_plan_empty = Some (ret, []) \<and>
      (\<exists>e. ret_err ret = Some e \<and> errors_Code e = Invalid) \<and> ret_results ret = None) \<and>
   (\<exists>ret started. Execute ex_registry (ctx_limit 0) ex_plan = Some (ret, started) \<and>
      ret_err ret = None \<and> DispatcherStart 1 \<in> set started)"
proof -
  have w0: "BottomUpWalk ex_plan_empty (Visit ex_registry) (new_visitor ex_plan_empty) =
      Some (None, new_visitor ex_plan_empty)"
    by (simp add: BottomUpWalk_def ex_plan_empty_def)
  have "\<exists>s. chooseDefaultResources (ctx_limit 0) ex_plan_empty
          ((es (new_visitor ex_plan_empty))
             \<lparr>metaChCap := length (sources (es (new_visitor ex_plan_empty)))\<rparr>) = Some s \<and>
          ConcurrencyQuota (resources s) = 0"
    by (simp add: chooseDefaultResources_def getResourceLimits_def ctx_limit_def
        ex_plan_empty_def new_visitor_def Let_def)
  then obtain s where c0: "chooseDefaultResources (ctx_limit 0) ex_plan_empty
          ((es (new_visitor ex_plan_empty))
             \<lparr>metaChCap := length (sources (es (new_visitor ex_plan_empty)))\<rparr>) = Some s"
    and q0: "ConcurrencyQuota (resources s) = 0"
    by blast
  have "map_option snd (Execute ex_registry (ctx_limit 0) ex_plan_empty) = Some []"
    by code_simp
  then obtain ret where e0: "Execute ex_registry (ctx_limit 0) ex_plan_empty = Some (ret, [])"
    by (cases "Execute ex_registry (ctx_limit 0) ex_plan_empty") auto
  from execute_error_semantics
         [where reg = ex_registry and ctx = "ctx_limit 0" and p = ex_plan_empty
            and ret = ret and started = "[]"] e0 w0 c0 q0
  have a: "(\<exists>e. ret_err ret = Some e \<and> errors_Code e = Invalid) \<and> ret_results ret = None"
    by blast
  have "map_option (\<lambda>(r, st). (ret_err r, st)) (Execute ex_registry (ctx_limit 0) ex_plan) =
      Some (None, [SourceRun (datasetIDFromNodeID ''from0'' 0), DispatcherStart 1, Watcher,
                   MetadataCloser])"
    by code_simp
  then obtain ret1 started1 where
    e1: "Execute ex_registry (ctx_limit 0) ex_plan = Some (ret1, started1)"
    and r1: "ret_err ret1 = None"
    and s1: "started1 = [SourceRun (datasetIDFromNodeID ''from0'' 0), DispatcherStart 1, Watcher,
                   MetadataCloser]"
    by (cases "Execute ex_registry (ctx_limit 0) ex_plan") auto
  from execute_error_semantics
         [where reg = ex_registry and ctx = "ctx_limit 0" and p = ex_plan
            and ret = ret1 and started = started1] e1 r1 s1
  have b: "DispatcherStart 1 \<in> set started1"
    by simp
  from e0 a e1 r1 b show ?thesis by blast
qed

subsection \<open>Abort\<close>

text \<open>
  Claim C8, as the code has it. \<open>abort err\<close> calls \<open>result.abort err\<close> on every result
  registered in the results map, removes no entry and adds none, and cancels the run
  context; resources, sources and transports are untouched. Every result that was still
  open is then failed with \<open>err\<close>; a result that was aborted before keeps the error of
  its first abort, so aborting again (as the watcher of \<open>do\<close> may) changes no result.
  After the call every registered result is failed.
\<close>

theorem abort_postcondition:
  "dom (results (abort err s)) = dom (results s) \<and>
   (\<forall>n r. results s n = Some r \<longrightarrow>
      results (abort err s) n = Some (result_abort err r) \<and>
      (abortErr r = None \<longrightarrow> abortErr (result_abort err r) = Some err) \<and>
      (abortErr r \<noteq> None \<longrightarrow> result_abort err r = r) \<and>
      abortErr (result_abort err r) \<noteq> None \<and>
      result_name (result_abort err r) = result_name r) \<and>
   results (abort err' (abort err s)) = results (abort err s) \<and>
   cancelled (abort err s) \<and>
   resources (abort err s) = resources s \<and> sources (abort err s) = sources s \<and>
   transports (abort err s) = transports s"
proof -
  have again: "result_abort err' (result_abort err r) = result_abort err r" for r
    by (simp add: result_abort_def)
  have "results (abort err' (abort err s)) = results (abort err s)"
    by (rule ext) (simp add: abort_def option.map_comp comp_def again)
  then show ?thesis
    by (auto simp: abort_def result_abort_def dom_def)
qed

theorem abort_postcondition_witness:
  "results ex_state ''out'' = Some (newResult ''out'') \<and>
   abortErr (newResult ''out'') = None \<and>
   results (abort err0 ex_state) ''out'' = Some (result_abort err0 (newResult ''out'')) \<and>
   abortErr (result_abort err0 (newResult ''out'')) = Some err0 \<and>
   results (abort err1 (abort err0 ex_state)) = results (abort err0 ex_state) \<and>
   cancelled (abort err0 ex_state)"
proof -
  have h: "results ex_state ''out'' = Some (newResult ''out'')"
    by (simp add: ex_state_def)
  have o: "abortErr (newResult ''out'') = None"
    by (simp add: newResult_def)
  from abort_postcondition [of err0 ex_state err1] h o show ?thesis by blast
qed

text \<open>
  A result that a first abort has failed with one error is not failed with the error of
  a second abort.
\<close>

theorem abort_twice_counterexample:
  "map_option abortErr (results (abort err0 ex_state) ''out'') = Some (Some err0) \<and>
   map_option abortErr (results (abort err1 (abort err0 ex_state)) ''out'') = Some (Some err0) \<and>
   err0 \<noteq> err1"
  by (simp add: abort_def result_abort_def ex_state_def newResult_def err0_def err1_def)

subsection \<open>limit: the two transformations keep the same rows\<close>

lemma well_formed_length: "well_formed b \<Longrightarrow> c \<in> set b \<Longrightarrow> int (length c) = Len b"
  by (simp add: well_formed_def list_all_iff)

lemma Len_nonneg: "0 \<le> Len b"
  by (simp add: Len_def split: list.splits)

lemma Len_map_const: "Len (map (\<lambda>arr. []) b) = 0"
  by (cases b) (simp_all add: Len_def)

lemma rows_empty: "Len b = 0 \<Longrightarrow> rows b = []"
  by (simp add: rows_def)

lemma slice_columns_kept:
  assumes wf: "well_formed cr" and s: "0 \<le> start" and c: "0 \<le> count"
    and le: "start + count \<le> Len cr"
  shows "slice_columns cr count start (start + count) =
           Some (map (\<lambda>arr. take (nat count) (drop (nat start) arr)) cr)"
  unfolding slice_columns_def
proof (rule those_map_total)
  fix arr assume "arr \<in> set cr"
  with wf have l: "int (length arr) = Len cr" by (rule well_formed_length)
  show "(if int (length arr) = count then Some arr else Slice arr start (start + count)) =
          Some (take (nat count) (drop (nat start) arr))"
  proof (cases "int (length arr) = count")
    case True
    with l le s have "start = 0" by simp
    with True show ?thesis by simp
  next
    case False
    with l le s c show ?thesis by (simp add: Slice_def)
  qed
qed

lemma empty_columns:
  "those (map (\<lambda>values. if length values = 0 then Some values else Slice values 0 0) chunk) =
     Some (map (\<lambda>arr. []) chunk)"
  by (rule those_map_total) (simp add: Slice_def)

lemma Len_kept:
  assumes wf: "well_formed cr" and ne: "cr \<noteq> []" and s: "0 \<le> start" and c: "0 \<le> count"
    and le: "start + count \<le> Len cr"
  shows "Len (map (\<lambda>arr. take (nat count) (drop (nat start) arr)) cr) = count"
proof -
  from ne obtain a as where cr: "cr = a # as" by (cases cr) auto
  then have "Len cr = int (length a)" by (simp add: Len_def)
  with le have "start + count \<le> int (length a)" by simp
  with s c show ?thesis unfolding cr by (simp add: Len_def)
qed

lemma rows_kept:
  assumes wf: "well_formed cr" and s: "0 \<le> start" and c: "0 \<le> count"
    and le: "start + count \<le> Len cr"
  shows "rows (map (\<lambda>arr. take (nat count) (drop (nat start) arr)) cr) =
           take (nat count) (drop (nat start) (rows cr))"
proof (cases "cr = []")
  case True
  then show ?thesis by (simp add: rows_def Len_def)
next
  case False
  let ?s = "nat start" and ?c = "nat count" and ?l = "nat (Len cr)"
  have sc: "?s + ?c \<le> ?l" using s c le by simp
  have len: "Len (map (\<lambda>arr. take ?c (drop ?s arr)) cr) = count"
    using Len_kept [OF wf False s c le] .
  have cols: "length arr = ?l" if "arr \<in> set cr" for arr
    using well_formed_length [OF wf that] by simp
  have "take ?c (drop ?s (rows cr)) = map (\<lambda>i. map (\<lambda>c. c ! i) cr) (take ?c (drop ?s [0..<?l]))"
    by (simp add: rows_def take_map drop_map)
  also have "take ?c (drop ?s [0..<?l]) = [?s..<?s + ?c]"
    using sc by (simp add: take_upt)
  also have "[?s..<?s + ?c] = map (\<lambda>i. i + ?s) [0..<?c]"
    by (simp only: map_add_upt add.commute [of ?c ?s])
  finally have rhs: "take ?c (drop ?s (rows cr)) =
      map (\<lambda>i. map (\<lambda>c. c ! (i + ?s)) cr) [0..<?c]"
    by (simp add: comp_def)
  have "rows (map (\<lambda>arr. take ?c (drop ?s arr)) cr) =
      map (\<lambda>i. map (\<lambda>arr. take ?c (drop ?s arr) ! i) cr) [0..<?c]"
    using c by (simp add: rows_def len comp_def)
  also have "\<dots> = map (\<lambda>i. map (\<lambda>c. c ! (i + ?s)) cr) [0..<?c]"
  proof (rule map_cong [OF refl], rule map_cong [OF refl])
    fix i arr assume "i \<in> set [0..<?c]" "arr \<in> set cr"
    then have "i < ?c" and "length arr = ?l" using cols by simp_all
    with sc show "take ?c (drop ?s arr) ! i = arr ! (i + ?s)"
      by (simp add: ac_simps)
  qed
  finally show ?thesis using rhs by simp
qed

lemma limitTable_batch_cut:
  assumes acc: "\<And>b. accept b = None" and wf: "well_formed cr"
    and off: "0 \<le> state_offset (state r)"
  shows "limitTable_batch accept r cr =
           Some (None, r\<lparr>state := cut_state (state r) cr,
                        emitted := emitted r @ cut_rows (state r) cr\<rparr>)"
proof (cases "state_n (state r) \<le> 0")
  case True
  then show ?thesis by (simp add: limitTable_batch_def cut_state_def cut_rows_def)
next
  case n: False
  show ?thesis
  proof (cases "Len cr \<le> state_offset (state r)")
    case True
    with n show ?thesis
      by (simp add: limitTable_batch_def cut_state_def cut_rows_def)
  next
    case False
    let ?start = "state_offset (state r)"
    let ?count = "min (Len cr - ?start) (state_n (state r))"
    have c0: "0 \<le> ?count" using n False by simp
    have le: "?start + ?count \<le> Len cr" by simp
    have stop: "(if Len cr - ?start > state_n (state r) then ?start + state_n (state r) else Len cr) =
                  ?start + ?count"
      by (simp add: min_def)
    have cnt: "(if Len cr - ?start > state_n (state r) then state_n (state r) else Len cr - ?start) =
                  ?count"
      by (simp add: min_def)
    from slice_columns_kept [OF wf off c0 le]
    have sl: "slice_columns cr ?count ?start (?start + ?count) =
         Some (map (\<lambda>arr. take (nat ?count) (drop (nat ?start) arr)) cr)" .
    show ?thesis
      using n False
      by (simp add: limitTable_batch_def Let_def stop cnt sl emit_def acc cut_state_def
          cut_rows_def)
  qed
qed

lemma processChunk_cut:
  assumes acc: "\<And>b. accept b = None" and wf: "well_formed chunk"
    and off: "0 \<le> state_offset (state r)"
  shows "processChunk accept r chunk =
           Some (None, r\<lparr>state := cut_state (state r) chunk,
                        emitted := emitted r @ cut_chunks (state r) chunk\<rparr>)"
proof (cases "state_n (state r) \<le> 0 \<or> Len chunk = 0")
  case True
  then have "cut_state (state r) chunk = state r"
    using off by (auto simp: cut_state_def)
  with True show ?thesis
    by (simp add: processChunk_def Let_def empty_columns [simplified] emit_def acc
        cut_chunks_def)
next
  case ne: False
  show ?thesis
  proof (cases "Len chunk \<le> state_offset (state r)")
    case True
    with ne show ?thesis
      by (simp add: processChunk_def Let_def cut_state_def cut_rows_def cut_chunks_def)
  next
    case False
    let ?start = "state_offset (state r)"
    let ?count = "min (Len chunk - ?start) (state_n (state r))"
    have c0: "0 \<le> ?count" using ne False by simp
    have le: "?start + ?count \<le> Len chunk" by simp
    have stop: "(if Len chunk - ?start > state_n (state r) then ?start + state_n (state r)
                 else Len chunk) = ?start + ?count"
      by (simp add: min_def)
    have cnt: "(if Len chunk - ?start > state_n (state r) then state_n (state r)
                else Len chunk - ?start) = ?count"
      by (simp add: min_def)
    from slice_columns_kept [OF wf off c0 le]
    have sl: "slice_columns chunk ?count ?start (?start + ?count) =
         Some (map (\<lambda>arr. take (nat ?count) (drop (nat ?start) arr)) chunk)" .
    show ?thesis
      using ne False
      by (simp add: processChunk_def Let_def stop cnt sl emit_def acc cut_state_def
          cut_rows_def cut_chunks_def)
  qed
qed

lemma length_rows: "length (rows b) = nat (Len b)"
  by (simp add: rows_def)

lemma cut_state_offset: "0 \<le> state_offset s \<Longrightarrow> 0 \<le> state_offset (cut_state s b)"
  by (simp add: cut_state_def)

lemma cut_rows_rows:
  assumes wf: "well_formed b" and off: "0 \<le> state_offset s"
  shows "concat (map rows (cut_rows s b)) =
           take (nat (state_n s)) (drop (nat (state_offset s)) (rows b))"
proof (cases "state_n s \<le> 0 \<or> Len b \<le> state_offset s")
  case True
  then show ?thesis using off by (auto simp: cut_rows_def length_rows)
next
  case False
  let ?count = "min (Len b - state_offset s) (state_n s)"
  have c0: "0 \<le> ?count" using False by simp
  have le: "state_offset s + ?count \<le> Len b" by simp
  have "concat (map rows (cut_rows s b)) =
          take (nat ?count) (drop (nat (state_offset s)) (rows b))"
    using False rows_kept [OF wf off c0 le] by (simp add: cut_rows_def)
  also have "\<dots> = take (nat (state_n s)) (drop (nat (state_offset s)) (rows b))"
  proof (cases "Len b - state_offset s \<le> state_n s")
    case True
    then have "length (drop (nat (state_offset s)) (rows b)) \<le> nat ?count"
      using off by (simp add: length_rows min_def)
    moreover from True have "length (drop (nat (state_offset s)) (rows b)) \<le> nat (state_n s)"
      using off by (simp add: length_rows)
    ultimately show ?thesis by simp
  next
    case False
    then show ?thesis by (simp add: min_def)
  qed
  finally show ?thesis .
qed

lemma cut_chunks_rows:
  assumes wf: "well_formed b" and off: "0 \<le> state_offset s"
  shows "filter (\<lambda>b. Len b \<noteq> 0) (cut_chunks s b) = cut_rows s b \<and>
         concat (map rows (cut_chunks s b)) = concat (map rows (cut_rows s b))"
proof (cases "state_n s \<le> 0 \<or> Len b = 0")
  case True
  then have "cut_rows s b = []" using off by (auto simp: cut_rows_def)
  with True show ?thesis
    by (simp add: cut_chunks_def Len_map_const rows_empty)
next
  case False
  show ?thesis
  proof (cases "Len b \<le> state_offset s")
    case True
    with False show ?thesis by (simp add: cut_chunks_def cut_rows_def)
  next
    case gt: False
    let ?count = "min (Len b - state_offset s) (state_n s)"
    have c0: "0 \<le> ?count" using False gt by simp
    have le: "state_offset s + ?count \<le> Len b" by simp
    from False have ne: "b \<noteq> []" by (auto simp: Len_def)
    have "?count \<noteq> 0" using False gt by (simp add: min_def)
    with Len_kept [OF wf ne off c0 le]
    have "Len (map (\<lambda>arr. take (nat ?count) (drop (nat (state_offset s)) arr)) b) \<noteq> 0"
      by simp
    with False gt show ?thesis by (simp add: cut_chunks_def cut_rows_def)
  qed
qed

lemma cut_state_rest:
  assumes off: "0 \<le> state_offset s"
  shows "take (nat (state_n s)) (drop (nat (state_offset s)) (rows b @ rest)) =
           take (nat (state_n s)) (drop (nat (state_offset s)) (rows b))
             @ take (nat (state_n (cut_state s b)))
                 (drop (nat (state_offset (cut_state s b))) rest)"
proof (cases "state_n s \<le> 0")
  case True
  then show ?thesis by (simp add: cut_state_def)
next
  case n: False
  show ?thesis
  proof (cases "Len b \<le> state_offset s")
    case True
    then have "nat (state_offset s) - nat (Len b) = nat (state_offset s - Len b)"
      using off Len_nonneg [of b] by simp
    with True n off show ?thesis
      by (simp add: cut_state_def length_rows)
  next
    case False
    let ?xs = "drop (nat (state_offset s)) (rows b)"
    have l: "length ?xs = nat (Len b - state_offset s)"
      using off by (simp add: length_rows)
    have A: "drop (nat (state_offset s)) (rows b @ rest) = ?xs @ rest"
      using False off by (simp add: length_rows)
    have C: "nat (state_n s) - length ?xs =
            nat (state_n s - min (Len b - state_offset s) (state_n s))"
      unfolding l using n False by (auto simp: min_def)
    have D: "cut_state s b =
        \<lparr>state_n = state_n s - min (Len b - state_offset s) (state_n s), state_offset = 0\<rparr>"
      using n False by (simp add: cut_state_def)
    have "take (nat (state_n s)) (?xs @ rest) =
            take (nat (state_n s)) ?xs @ take (nat (state_n s) - length ?xs) rest"
      by (rule take_append)
    then show ?thesis
      unfolding A C D by simp
  qed
qed

lemma Do_limit_both:
  assumes acc: "\<And>b. accept b = None"
  shows "list_all well_formed tbl \<Longrightarrow> 0 \<le> state_offset (state r1) \<Longrightarrow> state r2 = state r1 \<Longrightarrow>
    \<exists>r1' r2' new1 new2.
       Do (limitTable_batch accept) r1 tbl = Some (None, r1') \<and>
       Do (processChunk accept) r2 tbl = Some (None, r2') \<and>
       emitted r1' = emitted r1 @ new1 \<and> emitted r2' = emitted r2 @ new2 \<and>
       filter (\<lambda>b. Len b \<noteq> 0) new2 = new1 \<and>
       concat (map rows new1) =
         take (nat (state_n (state r1))) (drop (nat (state_offset (state r1)))
           (concat (map rows tbl))) \<and>
       concat (map rows new2) = concat (map rows new1)"
proof (induction tbl arbitrary: r1 r2)
  case Nil
  then show ?case by simp
next
  case (Cons b tbl)
  let ?s = "state r1"
  let ?r1 = "r1\<lparr>state := cut_state ?s b, emitted := emitted r1 @ cut_rows ?s b\<rparr>"
  let ?r2 = "r2\<lparr>state := cut_state ?s b, emitted := emitted r2 @ cut_chunks ?s b\<rparr>"
  from Cons.prems have wf: "well_formed b" and wfs: "list_all well_formed tbl"
    and off: "0 \<le> state_offset ?s" and st: "state r2 = ?s"
    by simp_all
  have s1: "limitTable_batch accept r1 b = Some (None, ?r1)"
    using limitTable_batch_cut [OF acc wf off] .
  have s2: "processChunk accept r2 b = Some (None, ?r2)"
    using processChunk_cut [of accept b r2, OF acc wf] off st by simp
  have off': "0 \<le> state_offset (state ?r1)"
    using cut_state_offset [OF off] by simp
  have st': "state ?r2 = state ?r1" by simp
  from Cons.IH [OF wfs off' st'] obtain r1' r2' new1 new2 where
    d1: "Do (limitTable_batch accept) ?r1 tbl = Some (None, r1')"
    and d2: "Do (processChunk accept) ?r2 tbl = Some (None, r2')"
    and e1: "emitted r1' = emitted ?r1 @ new1" and e2: "emitted r2' = emitted ?r2 @ new2"
    and f: "filter (\<lambda>b. Len b \<noteq> 0) new2 = new1"
    and c1: "concat (map rows new1) =
         take (nat (state_n (state ?r1))) (drop (nat (state_offset (state ?r1)))
           (concat (map rows tbl)))"
    and c2: "concat (map rows new2) = concat (map rows new1)"
    by blast
  have a1: "Do (limitTable_batch accept) r1 (b # tbl) = Some (None, r1')"
    using s1 d1 by simp
  have a2: "Do (processChunk accept) r2 (b # tbl) = Some (None, r2')"
    using s2 d2 by simp
  have a3: "emitted r1' = emitted r1 @ (cut_rows ?s b @ new1)"
    using e1 by simp
  have a4: "emitted r2' = emitted r2 @ (cut_chunks ?s b @ new2)"
    using e2 by simp
  have a5: "filter (\<lambda>b. Len b \<noteq> 0) (cut_chunks ?s b @ new2) = cut_rows ?s b @ new1"
    using cut_chunks_rows [OF wf off] f by simp
  have a6: "concat (map rows (cut_rows ?s b @ new1)) =
      take (nat (state_n ?s)) (drop (nat (state_offset ?s)) (concat (map rows (b # tbl))))"
    using cut_rows_rows [OF wf off] c1 cut_state_rest [OF off, of b "concat (map rows tbl)"]
    by simp
  have a7: "concat (map rows (cut_chunks ?s b @ new2)) = concat (map rows (cut_rows ?s b @ new1))"
    using cut_chunks_rows [OF wf off] c2 by simp
  from a1 a2 a3 a4 a5 a6 a7 show ?case by blast
qed

text \<open>
  Claim C10, as the code has it. Let the offset be not negative, the batches of the
  table be well formed, and downstream accept every buffer. Then \<open>limitTable\<close> and the
  narrow \<open>processChunk\<close>, run over the same batches from the same \<open>n\<close> and \<open>offset\<close>,
  both finish without error; the rows of the buffers each has emitted, in order, are
  the rows of the input after skipping \<open>offset\<close> rows and keeping at most \<open>n\<close>; and
  the buffers of the narrow one are those of the other with, in addition, buffers of
  zero rows.
\<close>

theorem limit_row_equivalence:
  "(\<forall>b. accept b = None) \<and> list_all well_formed tbl \<and> 0 \<le> offset \<longrightarrow>
     (\<exists>r1 r2. limitTable accept n offset tbl = Some (None, r1) \<and>
        narrow_limit accept n offset tbl = Some (None, r2) \<and>
        concat (map rows (emitted r1)) = limit_rows n offset tbl \<and>
        concat (map rows (emitted r2)) = limit_rows n offset tbl \<and>
        filter (\<lambda>b. Len b \<noteq> 0) (emitted r2) = emitted r1)"
proof
  assume h: "(\<forall>b. accept b = None) \<and> list_all well_formed tbl \<and> 0 \<le> offset"
  then have acc: "\<And>b. accept b = None" by simp
  let ?r = "limit_start n offset :: 'a limitRun"
  have off: "0 \<le> state_offset (state ?r)" using h by (simp add: limit_start_def)
  from Do_limit_both [of accept tbl ?r ?r, OF acc _ off] h
  obtain r1 r2 new1 new2 where
    d1: "Do (limitTable_batch accept) ?r tbl = Some (None, r1)"
    and d2: "Do (processChunk accept) ?r tbl = Some (None, r2)"
    and e1: "emitted r1 = emitted ?r @ new1" and e2: "emitted r2 = emitted ?r @ new2"
    and f: "filter (\<lambda>b. Len b \<noteq> 0) new2 = new1"
    and c1: "concat (map rows new1) =
         take (nat (state_n (state ?r))) (drop (nat (state_offset (state ?r)))
           (concat (map rows tbl)))"
    and c2: "concat (map rows new2) = concat (map rows new1)"
    by blast
  from e1 e2 have "emitted r1 = new1" "emitted r2 = new2"
    by (simp_all add: limit_start_def)
  with d1 d2 f c1 c2
  show "\<exists>r1 r2. limitTable accept n offset tbl = Some (None, r1) \<and>
        narrow_limit accept n offset tbl = Some (None, r2) \<and>
        concat (map rows (emitted r1)) = limit_rows n offset tbl \<and>
        concat (map rows (emitted r2)) = limit_rows n offset tbl \<and>
        filter (\<lambda>b. Len b \<noteq> 0) (emitted r2) = emitted r1"
    by (auto simp: limitTable_def narrow_limit_def limit_rows_def limit_start_def)
qed

theorem limit_row_equivalence_witness:
  "list_all well_formed ex_table \<and>
   limit_rows 3 2 ex_table = [[3, 30], [4, 40], [5, 50]] \<and>
   (\<exists>r1 r2. limitTable accept_all 3 2 ex_table = Some (None, r1) \<and>
      narrow_limit accept_all 3 2 ex_table = Some (None, r2) \<and>
      concat (map rows (emitted r1)) = [[3, 30], [4, 40], [5, 50]] \<and>
      concat (map rows (emitted r2)) = [[3, 30], [4, 40], [5, 50]] \<and>
      filter (\<lambda>b. Len b \<noteq> 0) (emitted r2) = emitted r1)"
proof -
  have a: "\<forall>b :: nat batch. accept_all b = None" by (simp add: accept_all_def)
  have w: "list_all well_formed ex_table"
    by (simp add: ex_table_def well_formed_def Len_def)
  have l: "limit_rows 3 2 ex_table = [[3, 30], [4, 40], [5, 50]]"
    by code_simp
  from limit_row_equivalence [of accept_all ex_table 2 3] a w
  have "\<exists>r1 r2. limitTable accept_all 3 2 ex_table = Some (None, r1) \<and>
      narrow_limit accept_all 3 2 ex_table = Some (None, r2) \<and>
      concat (map rows (emitted r1)) = limit_rows 3 2 ex_table \<and>
      concat (map rows (emitted r2)) = limit_rows 3 2 ex_table \<and>
      filter (\<lambda>b. Len b \<noteq> 0) (emitted r2) = emitted r1"
    by simp
  with w l show ?thesis by simp
qed

text \<open>
  With the offset \<open>-1\<close>, \<open>n = 1\<close>, an empty first batch and a second batch of one row:
  \<open>limitTable\<close> takes the empty batch for the one to cut and slices it from \<open>-1\<close>, out
  of range, while \<open>processChunk\<close> passes the empty chunk along and then emits the row.
\<close>

theorem limit_negative_offset_counterexample:
  "list_all well_formed [[[]], [[7 :: nat]]] \<and>
   limitTable accept_all 1 (- 1) [[[]], [[7 :: nat]]] = None \<and>
   map_option (\<lambda>(e, r). (e, emitted r)) (narrow_limit accept_all 1 (- 1) [[[]], [[7 :: nat]]]) =
     Some (None, [[[]], [[7]]])"
  by (simp add: well_formed_def Len_def limitTable_def narrow_limit_def limit_start_def
      limitTable_batch_def processChunk_def slice_columns_def Slice_def emit_def
      accept_all_def Let_def)

end
